(* ===== verification/Prelude.thy ===== *)
theory Prelude
  imports Main "HOL-Library.Word" "HOL-Library.AList" "HOL-Library.Multiset"
begin

text \<open>
  Shared vocabulary of the development: the Rust machine integers, the result of a fallible
  Rust expression (a value, an \<open>anyhow\<close> error or a panic), effectful operations that thread
  a state and may stop early (the \<open>?\<close> operator), saturating arithmetic, decimal printing as
  used by \<open>format!\<close>, \<open>std::path::Path::join\<close>, ASCII case folding and the iteration order of
  a \<open>std::collections::HashMap\<close>.
\<close>

section \<open>Machine integers and results\<close>

type_synonym u64 = "64 word"
type_synonym u32 = "32 word"
type_synonym u16 = "16 word"
type_synonym i64 = "64 word"

text \<open>\<open>usize\<close> on the 64-bit targets the program is built for.\<close>

type_synonym usize = "64 word"

text \<open>An \<open>anyhow::Error\<close> is observed only through its rendered message.\<close>

type_synonym anyhow = string

text \<open>
  The outcome of a Rust expression of type \<open>Result<T>\<close>: the two variants of \<open>Result\<close>, and
  a panic, which unwinds instead of returning.
\<close>

datatype 'a rs = Ok 'a | Err anyhow | Panic

named_theorems io_simps \<open>evaluation rules of effectful operations\<close>
named_theorems u64_simps \<open>machine arithmetic read through unat\<close>

fun bind_rs :: "'a rs \<Rightarrow> ('a \<Rightarrow> 'b rs) \<Rightarrow> 'b rs" where
  "bind_rs (Ok a) k = k a"
| "bind_rs (Err e) k = Err e"
| "bind_rs Panic k = Panic"

fun map_rs_value :: "('a \<Rightarrow> 'b) \<Rightarrow> 'a rs \<Rightarrow> 'b rs" where
  "map_rs_value f (Ok a) = Ok (f a)"
| "map_rs_value f (Err e) = Err e"
| "map_rs_value f Panic = Panic"

text \<open>Evaluating a list of fallible expressions from left to right, as \<open>vec![a?, b?, c?]\<close> does.\<close>

fun traverse_rs :: "('a \<Rightarrow> 'b rs) \<Rightarrow> 'a list \<Rightarrow> 'b list rs" where
  "traverse_rs f [] = Ok []"
| "traverse_rs f (x # xs) = bind_rs (f x) (\<lambda>y. bind_rs (traverse_rs f xs) (\<lambda>ys. Ok (y # ys)))"

lemma bind_rs_Ok_iff [simp]: "bind_rs m k = Ok b \<longleftrightarrow> (\<exists>a. m = Ok a \<and> k a = Ok b)"
  by (cases m) auto

lemma bind_rs_Err_iff: "bind_rs m k = Err e \<longleftrightarrow> m = Err e \<or> (\<exists>a. m = Ok a \<and> k a = Err e)"
  by (cases m) auto

lemma bind_rs_Panic_iff: "bind_rs m k = Panic \<longleftrightarrow> m = Panic \<or> (\<exists>a. m = Ok a \<and> k a = Panic)"
  by (cases m) auto

lemma map_rs_value_Ok_iff [simp]: "map_rs_value f m = Ok b \<longleftrightarrow> (\<exists>a. m = Ok a \<and> b = f a)"
  by (cases m) auto

lemma map_rs_value_Err_iff [simp]: "map_rs_value f m = Err e \<longleftrightarrow> m = Err e"
  by (cases m) auto

lemma map_rs_value_Panic_iff [simp]: "map_rs_value f m = Panic \<longleftrightarrow> m = Panic"
  by (cases m) auto

lemma traverse_rs_Ok_iff:
  "traverse_rs f xs = Ok ys \<longleftrightarrow> list_all2 (\<lambda>x y. f x = Ok y) xs ys"
  by (induction xs arbitrary: ys) (auto simp: list_all2_Cons1)

lemma traverse_rs_Ok_total:
  "(\<And>x. x \<in> set xs \<Longrightarrow> f x = Ok (g x)) \<Longrightarrow> traverse_rs f xs = Ok (map g xs)"
  by (induction xs) auto

lemma traverse_rs_append:
  "traverse_rs f (xs @ ys) =
    bind_rs (traverse_rs f xs) (\<lambda>us. bind_rs (traverse_rs f ys) (\<lambda>vs. Ok (us @ vs)))"
proof (induction xs)
  case Nil
  then show ?case by (cases "traverse_rs f ys") auto
next
  case (Cons a xs)
  then show ?case
    by (cases "f a"; cases "traverse_rs f xs"; cases "traverse_rs f ys") auto
qed

text \<open>The first failing element decides the error, the elements before it having succeeded.\<close>

lemma traverse_rs_Err_first:
  assumes "traverse_rs f xs = Err e"
  obtains us x vs ys where "xs = us @ x # vs" and "traverse_rs f us = Ok ys" and "f x = Err e"
proof -
  have "\<exists>us x vs ys. xs = us @ x # vs \<and> traverse_rs f us = Ok ys \<and> f x = Err e"
    using assms
  proof (induction xs)
    case Nil
    then show ?case by simp
  next
    case (Cons a xs)
    from Cons.prems consider (here) "f a = Err e"
      | (later) y where "f a = Ok y" and "traverse_rs f xs = Err e"
      by (auto simp: bind_rs_Err_iff)
    then show ?case
    proof cases
      case here
      then show ?thesis by (intro exI [of _ "[]"]) auto
    next
      case later
      with Cons.IH obtain us x vs ys
        where "xs = us @ x # vs" and "traverse_rs f us = Ok ys" and "f x = Err e"
        by blast
      with later(1) show ?thesis by (intro exI [of _ "a # us"]) auto
    qed
  qed
  with that show thesis by blast
qed

section \<open>Effectful operations\<close>

text \<open>
  A method that mutates its receiver (or the outside world) and returns \<open>Result<T>\<close> is a
  function from the state to the outcome and the new state. The new state is there on every
  outcome: what was mutated before an early return stays mutated.
\<close>

type_synonym ('s, 'a) io = "'s \<Rightarrow> 'a rs \<times> 's"

definition io_return :: "'a \<Rightarrow> ('s, 'a) io" where
  "io_return a = (\<lambda>s. (Ok a, s))"

definition io_fail :: "anyhow \<Rightarrow> ('s, 'a) io" where
  "io_fail e = (\<lambda>s. (Err e, s))"

definition io_rs :: "'a rs \<Rightarrow> ('s, 'a) io" where
  "io_rs r = (\<lambda>s. (r, s))"

text \<open>\<open>let a = m?; k(a)\<close>\<close>

definition io_bind :: "('s, 'a) io \<Rightarrow> ('a \<Rightarrow> ('s, 'b) io) \<Rightarrow> ('s, 'b) io" where
  "io_bind m k = (\<lambda>s. case m s of
      (Ok a, s') \<Rightarrow> k a s'
    | (Err e, s') \<Rightarrow> (Err e, s')
    | (Panic, s') \<Rightarrow> (Panic, s'))"

text \<open>An operation on the outside world, run by a method whose receiver is \<open>'r\<close>.\<close>

definition io_world :: "('w, 'a) io \<Rightarrow> ('r \<times> 'w, 'a) io" where
  "io_world m = (\<lambda>(r, w). case m w of (a, w') \<Rightarrow> (a, (r, w')))"

text \<open>\<open>for x in xs { f(x)?; }\<close>\<close>

fun io_each :: "('a \<Rightarrow> ('s, unit) io) \<Rightarrow> 'a list \<Rightarrow> ('s, unit) io" where
  "io_each f [] = io_return ()"
| "io_each f (x # xs) = io_bind (f x) (\<lambda>_. io_each f xs)"

lemma io_return_apply [simp, io_simps]: "io_return a s = (Ok a, s)"
  by (simp add: io_return_def)

lemma io_fail_apply [simp, io_simps]: "io_fail e s = (Err e, s)"
  by (simp add: io_fail_def)

lemma io_rs_apply [simp, io_simps]: "io_rs r s = (r, s)"
  by (simp add: io_rs_def)

lemma io_bind_cases [io_simps]:
  "m s = (Ok a, s') \<Longrightarrow> io_bind m k s = k a s'"
  "m s = (Err e, s') \<Longrightarrow> io_bind m k s = (Err e, s')"
  "m s = (Panic, s') \<Longrightarrow> io_bind m k s = (Panic, s')"
  by (simp_all add: io_bind_def)

lemma io_bind_return [simp]: "io_bind (io_return a) k = k a"
  by (rule ext) (simp add: io_bind_def)

lemma io_bind_fail [simp]: "io_bind (io_fail e) k = io_fail e"
  by (rule ext) (simp add: io_bind_def)

lemma io_world_apply [simp, io_simps]:
  "io_world m (r, w) = (fst (m w), (r, snd (m w)))"
  by (simp add: io_world_def split: prod.split)

lemma io_bind_elim:
  assumes "io_bind m k s = (r, s'')"
  obtains (ok) a s' where "m s = (Ok a, s')" and "k a s' = (r, s'')"
    | (err) e where "m s = (Err e, s'')" and "r = Err e"
    | (panic) "m s = (Panic, s'')" and "r = Panic"
  using assms by (auto simp: io_bind_def split: prod.splits rs.splits)

lemma io_bind_Ok_elim:
  assumes "io_bind m k s = (Ok b, s'')"
  obtains a s' where "m s = (Ok a, s')" and "k a s' = (Ok b, s'')"
  using assms by (auto elim: io_bind_elim)

text \<open>
  \<open>io_rel R m\<close>: every run of \<open>m\<close>, whatever its outcome, takes the state along \<open>R\<close>. For a
  reflexive and transitive \<open>R\<close> this composes through \<open>io_bind\<close>.
\<close>

definition io_rel :: "('s \<Rightarrow> 's \<Rightarrow> bool) \<Rightarrow> ('s, 'a) io \<Rightarrow> bool" where
  "io_rel R m \<longleftrightarrow> (\<forall>s. R s (snd (m s)))"

lemma io_relI: "(\<And>s r s'. m s = (r, s') \<Longrightarrow> R s s') \<Longrightarrow> io_rel R m"
  unfolding io_rel_def by (metis surj_pair snd_conv)

lemma io_relD: "io_rel R m \<Longrightarrow> m s = (r, s') \<Longrightarrow> R s s'"
  unfolding io_rel_def by (metis snd_conv)

lemma io_rel_return [intro, simp]: "reflp R \<Longrightarrow> io_rel R (io_return a)"
  by (simp add: io_rel_def reflpD)

lemma io_rel_rs [intro, simp]: "reflp R \<Longrightarrow> io_rel R (io_rs a)"
  by (simp add: io_rel_def reflpD)

lemma io_rel_bind [intro]:
  assumes "transp R" and "io_rel R m" and "\<And>a. io_rel R (k a)"
  shows "io_rel R (io_bind m k)"
proof (rule io_relI)
  fix s r s''
  assume "io_bind m k s = (r, s'')"
  then show "R s s''"
    by (cases rule: io_bind_elim)
      (use assms in \<open>auto dest: io_relD intro: transpD [where R = R]\<close>)
qed

lemma io_rel_each:
  "reflp R \<Longrightarrow> transp R \<Longrightarrow> (\<And>x. io_rel R (f x)) \<Longrightarrow> io_rel R (io_each f xs)"
  by (induction xs) (auto simp del: io_rel_def)

section \<open>Saturating arithmetic\<close>

text \<open>\<open>saturating_add\<close> and \<open>saturating_sub\<close> of the unsigned integer types.\<close>

definition saturating_add :: "'l::len word \<Rightarrow> 'l word \<Rightarrow> 'l word" where
  "saturating_add a b = (if unat a + unat b < 2 ^ LENGTH('l) then a + b else - 1)"

definition saturating_sub :: "'l::len word \<Rightarrow> 'l word \<Rightarrow> 'l word" where
  "saturating_sub a b = (if a < b then 0 else a - b)"

lemma unat_minus_one_word_eq: "unat (- 1 :: 'l::len word) = 2 ^ LENGTH('l) - 1"
  by (simp add: unsigned_minus_1_eq_mask mask_eq_exp_minus_1)

lemma unat_saturating_add [u64_simps]:
  "unat (saturating_add a b) = min (unat a + unat b) (2 ^ LENGTH('l) - 1)"
  for a b :: "'l::len word"
proof (cases "unat a + unat b < 2 ^ LENGTH('l)")
  case True
  then show ?thesis by (simp add: saturating_add_def unat_word_ariths)
next
  case False
  then show ?thesis by (simp add: saturating_add_def unat_minus_one_word_eq)
qed

lemma unat_saturating_sub [u64_simps]:
  "unat (saturating_sub a b) = unat a - unat b"
  for a b :: "'l::len word"
  by (auto simp: saturating_sub_def word_less_nat_alt unat_sub_if')

lemma saturating_add_ge: "a \<le> saturating_add a b"
  for a b :: "'l::len word"
proof -
  have "unat a < 2 ^ LENGTH('l)"
    by (rule unsigned_less)
  then have "unat a \<le> 2 ^ LENGTH('l) - 1"
    by linarith
  then show ?thesis by (simp add: word_le_nat_alt u64_simps)
qed

section \<open>Text\<close>

text \<open>
  A Rust string is its UTF-8 bytes, one \<open>char\<close> each. \<open>show_nat\<close> is the decimal rendering
  \<open>format!\<close> uses for the unsigned integers, \<open>show_int\<close> the one for signed integers.
\<close>

fun show_nat :: "nat \<Rightarrow> string" where
  "show_nat n =
    (if n < 10 then [char_of (48 + n)] else show_nat (n div 10) @ [char_of (48 + n mod 10)])"

declare show_nat.simps [simp del]

lemma char_of_digit [simp]:
  "char_of (48::nat) = CHR ''0''" "char_of (49::nat) = CHR ''1''" "char_of (50::nat) = CHR ''2''"
  "char_of (51::nat) = CHR ''3''" "char_of (52::nat) = CHR ''4''" "char_of (53::nat) = CHR ''5''"
  "char_of (54::nat) = CHR ''6''" "char_of (55::nat) = CHR ''7''" "char_of (56::nat) = CHR ''8''"
  "char_of (57::nat) = CHR ''9''"
  by (simp_all add: char_of_eq_iff)

definition show_u64 :: "u64 \<Rightarrow> string" where
  "show_u64 w = show_nat (unat w)"

definition show_int :: "int \<Rightarrow> string" where
  "show_int i = (if i < 0 then CHR ''-'' # show_nat (nat (- i)) else show_nat (nat i))"

definition is_digit :: "char \<Rightarrow> bool" where
  "is_digit c \<longleftrightarrow> 48 \<le> (of_char c :: nat) \<and> (of_char c :: nat) < 58"

definition decimal_value :: "string \<Rightarrow> nat" where
  "decimal_value cs = foldl (\<lambda>a c. 10 * a + (of_char c - 48)) 0 cs"

lemma decimal_value_show_nat [simp]: "decimal_value (show_nat n) = n"
proof (induction n rule: show_nat.induct)
  case (1 n)
  show ?case
  proof (cases "n < 10")
    case True
    then show ?thesis by (simp add: decimal_value_def show_nat.simps [of n])
  next
    case False
    with "1" have "decimal_value (show_nat (n div 10)) = n div 10" by simp
    with False show ?thesis
      by (simp add: decimal_value_def show_nat.simps [of n])
  qed
qed

lemma show_nat_inject [simp]: "show_nat m = show_nat n \<longleftrightarrow> m = n"
  by (metis decimal_value_show_nat)

lemma show_u64_inject [simp]: "show_u64 a = show_u64 b \<longleftrightarrow> a = b"
  by (simp add: show_u64_def word_unat_eq_iff)

lemma show_nat_digits: "c \<in> set (show_nat n) \<Longrightarrow> is_digit c"
proof (induction n rule: show_nat.induct)
  case (1 n)
  show ?case
  proof (cases "n < 10")
    case True
    with "1.prems" show ?thesis by (auto simp: is_digit_def show_nat.simps [of n])
  next
    case False
    with "1" show ?thesis by (auto simp: is_digit_def show_nat.simps [of n])
  qed
qed

lemma show_int_inject [simp]: "show_int i = show_int j \<longleftrightarrow> i = j"
proof
  have neg: "CHR ''-'' # ds \<noteq> show_nat n" for ds n
  proof
    assume "CHR ''-'' # ds = show_nat n"
    then have "CHR ''-'' \<in> set (show_nat n)" by (metis list.set_intros(1))
    from show_nat_digits [OF this] show False by (simp add: is_digit_def)
  qed
  assume "show_int i = show_int j"
  then show "i = j"
    by (auto simp: show_int_def neg neg [symmetric] split: if_splits)
qed simp

lemma show_nat_no_char: "\<not> is_digit c \<Longrightarrow> c \<notin> set (show_nat n)"
  by (auto dest: show_nat_digits)

lemma show_u64_no_char: "\<not> is_digit c \<Longrightarrow> c \<notin> set (show_u64 n)"
  by (simp add: show_u64_def show_nat_no_char)

lemma show_int_no_char: "\<not> is_digit c \<Longrightarrow> c \<noteq> CHR ''-'' \<Longrightarrow> c \<notin> set (show_int i)"
  by (auto simp: show_int_def dest: show_nat_digits)

text \<open>A separator that the left parts do not contain splits a string in one way only.\<close>

lemma split_at_separator:
  assumes "c \<notin> set a" and "c \<notin> set a'" and "a @ c # b = a' @ c # b'"
  shows "a = a'" and "b = b'"
proof -
  have "a = a' \<and> b = b'"
    using assms
  proof (induction a arbitrary: a')
    case Nil
    then show ?case by (cases a') auto
  next
    case (Cons x a)
    then show ?case by (cases a') auto
  qed
  then show "a = a'" and "b = b'" by simp_all
qed

text \<open>\<open>str::eq_ignore_ascii_case\<close>\<close>

definition to_ascii_lower :: "char \<Rightarrow> char" where
  "to_ascii_lower c =
    (if 65 \<le> (of_char c :: nat) \<and> (of_char c :: nat) \<le> 90 then char_of (of_char c + 32 :: nat) else c)"

definition eq_ignore_ascii_case :: "string \<Rightarrow> string \<Rightarrow> bool" where
  "eq_ignore_ascii_case a b \<longleftrightarrow> map to_ascii_lower a = map to_ascii_lower b"

text \<open>\<open>slice::join\<close> on strings\<close>

fun join_with :: "string \<Rightarrow> string list \<Rightarrow> string" where
  "join_with sep [] = []"
| "join_with sep [x] = x"
| "join_with sep (x # y # ys) = x @ sep @ join_with sep (y # ys)"

text \<open>
  \<open>std::path::Path::join\<close> on a Unix path: an absolute second path replaces the first, and a
  separator is added unless the first is empty or ends with one.
\<close>

definition path_join :: "string \<Rightarrow> string \<Rightarrow> string" where
  "path_join p q =
    (if q \<noteq> [] \<and> hd q = CHR ''/'' then q
     else if p = [] \<or> last p = CHR ''/'' then p @ q
     else p @ CHR ''/'' # q)"

lemma path_join_inject:
  "(q = [] \<or> hd q \<noteq> CHR ''/'') \<Longrightarrow> (r = [] \<or> hd r \<noteq> CHR ''/'') \<Longrightarrow>
    path_join p q = path_join p r \<longleftrightarrow> q = r"
  by (auto simp: path_join_def)

section \<open>Hash maps\<close>

text \<open>
  A \<open>std::collections::HashMap\<close> is an association list with distinct keys. Its iteration
  order is unspecified: \<open>hash_iter\<close> arranges the keys and is a parameter of the model, of
  which the program relies only on \<open>hash_iter_ok\<close>, that iteration visits every key once.
\<close>

type_synonym 'v hash_map = "(string \<times> 'v) list"

type_synonym hash_order = "string list \<Rightarrow> string list"

definition hash_iter_ok :: "hash_order \<Rightarrow> bool" where
  "hash_iter_ok h \<longleftrightarrow> (\<forall>ks. mset (h ks) = mset ks)"

definition hash_entries :: "hash_order \<Rightarrow> 'v hash_map \<Rightarrow> (string \<times> 'v) list" where
  "hash_entries h m = List.map_filter (\<lambda>k. map_option (Pair k) (map_of m k)) (h (map fst m))"

abbreviation hash_wf :: "'v hash_map \<Rightarrow> bool" where
  "hash_wf m \<equiv> distinct (map fst m)"

lemma set_hash_entries_subset: "set (hash_entries h m) \<subseteq> set m"
  by (auto simp: hash_entries_def List.map_filter_def dest: map_of_SomeD)

lemma hash_entries_permutation:
  assumes "hash_iter_ok h" and "hash_wf m"
  shows "mset (hash_entries h m) = mset m"
proof -
  have lookup: "map_option (Pair k) (map_of m k) = Some (k, the (map_of m k))"
    if "k \<in> set (map fst m)" for k
    using that by (auto simp: map_of_eq_None_iff)
  have keys: "set (h (map fst m)) = set (map fst m)"
    using assms(1) unfolding hash_iter_ok_def by (metis set_mset_mset)
  have "hash_entries h m = map (\<lambda>k. (k, the (map_of m k))) (h (map fst m))"
  proof -
    have "filter (\<lambda>k. map_option (Pair k) (map_of m k) \<noteq> None) (h (map fst m)) = h (map fst m)"
      by (intro filter_True ballI) (simp only: keys lookup option.distinct simp_thms)
    moreover have "map (the \<circ> (\<lambda>k. map_option (Pair k) (map_of m k))) (h (map fst m))
        = map (\<lambda>k. (k, the (map_of m k))) (h (map fst m))"
      by (rule map_cong [OF refl]) (simp only: comp_apply keys lookup option.sel)
    ultimately show ?thesis by (simp only: hash_entries_def List.map_filter_def)
  qed
  then have "mset (hash_entries h m) = image_mset (\<lambda>k. (k, the (map_of m k))) (mset (map fst m))"
    using assms(1) by (simp add: hash_iter_ok_def)
  also have "\<dots> = mset (map (\<lambda>(k, v). (k, the (map_of m k))) m)"
    by (simp add: image_mset.compositionality comp_def split_def)
  also have "map (\<lambda>(k, v). (k, the (map_of m k))) m = m"
    using assms(2) by (intro map_idI) auto
  finally show ?thesis .
qed

end
