(* ===== verification/Contracts.thy ===== *)
theory Contracts
  imports Prelude
begin

text \<open>
  Model of \<open>src/src/contracts.rs\<close>: the ten events the \<open>sol!\<close> macro declares, with the structs
  it generates for them, and the three contract addresses. What the macro and \<open>alloy\<close> provide
  (Keccak-256, ABI decoding, parsing and printing of fixed-size byte strings) is a parameter,
  the record \<open>alloy\<close>; the canonical event signatures are computed from the declarations as the
  Solidity ABI prescribes.
\<close>

section \<open>Solidity types and values\<close>

type_synonym B256 = "256 word"
type_synonym U256 = "256 word"
type_synonym Address = "160 word"
type_synonym bytes = "8 word list"

datatype sol_type = Bytes32 | Addr | Uint256 | Uint256Array | DynBytes

fun sol_type_name :: "sol_type \<Rightarrow> string" where
  "sol_type_name Bytes32 = ''bytes32''"
| "sol_type_name Addr = ''address''"
| "sol_type_name Uint256 = ''uint256''"
| "sol_type_name Uint256Array = ''uint256[]''"
| "sol_type_name DynBytes = ''bytes''"

text \<open>A value of one of the generated field types.\<close>

datatype sol_value =
    SB256 B256 | SAddress Address | SU256 U256 | SU256Array "U256 list" | SBytes bytes

section \<open>Event declarations\<close>

datatype event_kind =
    ConditionPreparation | PositionSplit | PositionsMerge | PayoutRedemption | OrderFilled
  | OrdersMatched | OrderCancelled | MarketPrepared | QuestionPrepared | PositionsConverted

definition event_kinds :: "event_kind list" where
  "event_kinds = [ConditionPreparation, PositionSplit, PositionsMerge, PayoutRedemption,
     OrderFilled, OrdersMatched, OrderCancelled, MarketPrepared, QuestionPrepared,
     PositionsConverted]"

text \<open>A parameter of an event, with its \<open>indexed\<close> marker, in declaration order.\<close>

datatype event_param = Indexed sol_type string | Plain sol_type string

fun param_type :: "event_param \<Rightarrow> sol_type" where
  "param_type (Indexed t n) = t"
| "param_type (Plain t n) = t"

fun is_indexed :: "event_param \<Rightarrow> bool" where
  "is_indexed (Indexed t n) = True"
| "is_indexed (Plain t n) = False"

fun event_name :: "event_kind \<Rightarrow> string" where
  "event_name ConditionPreparation = ''ConditionPreparation''"
| "event_name PositionSplit = ''PositionSplit''"
| "event_name PositionsMerge = ''PositionsMerge''"
| "event_name PayoutRedemption = ''PayoutRedemption''"
| "event_name OrderFilled = ''OrderFilled''"
| "event_name OrdersMatched = ''OrdersMatched''"
| "event_name OrderCancelled = ''OrderCancelled''"
| "event_name MarketPrepared = ''MarketPrepared''"
| "event_name QuestionPrepared = ''QuestionPrepared''"
| "event_name PositionsConverted = ''PositionsConverted''"

fun event_params :: "event_kind \<Rightarrow> event_param list" where
  "event_params ConditionPreparation =
     [Indexed Bytes32 ''conditionId'', Indexed Addr ''oracle'', Indexed Bytes32 ''questionId'',
      Plain Uint256 ''outcomeSlotCount'']"
| "event_params PositionSplit =
     [Indexed Addr ''collateralToken'', Indexed Addr ''parentCollectionId'',
      Indexed Bytes32 ''conditionId'', Plain Bytes32 ''partition'', Plain Uint256Array ''amounts'',
      Plain Uint256 ''amount'']"
| "event_params PositionsMerge =
     [Indexed Addr ''collateralToken'', Indexed Addr ''parentCollectionId'',
      Indexed Bytes32 ''conditionId'', Plain Bytes32 ''partition'', Plain Uint256Array ''amounts'',
      Plain Uint256 ''amount'']"
| "event_params PayoutRedemption =
     [Indexed Addr ''redeemer'', Indexed Addr ''collateralToken'',
      Indexed Bytes32 ''parentCollectionId'', Plain Bytes32 ''conditionId'',
      Plain Uint256Array ''indexSets'', Plain Uint256 ''amount'']"
| "event_params OrderFilled =
     [Indexed Bytes32 ''orderHash'', Indexed Addr ''maker'', Indexed Addr ''taker'',
      Plain Uint256 ''makerFillAmount'', Plain Uint256 ''takerFillAmount'',
      Plain Uint256 ''makerFee'', Plain Uint256 ''takerFee'']"
| "event_params OrdersMatched =
     [Indexed Bytes32 ''takerOrderHash'', Indexed Bytes32 ''makerOrderHash'']"
| "event_params OrderCancelled = [Indexed Bytes32 ''orderHash'']"
| "event_params MarketPrepared =
     [Indexed Bytes32 ''conditionId'', Indexed Addr ''creator'', Indexed Uint256 ''marketId'',
      Plain DynBytes ''data'']"
| "event_params QuestionPrepared =
     [Indexed Bytes32 ''questionId'', Indexed Bytes32 ''conditionId'', Indexed Addr ''creator'',
      Plain DynBytes ''data'']"
| "event_params PositionsConverted =
     [Indexed Bytes32 ''conditionId'', Indexed Addr ''stakeholder'', Plain Uint256 ''amount'',
      Plain Uint256 ''fee'']"

fun param_name :: "event_param \<Rightarrow> string" where
  "param_name (Indexed t n) = n"
| "param_name (Plain t n) = n"

text \<open>The canonical signature of an event: its name and the types of its parameters.\<close>

definition event_signature :: "event_kind \<Rightarrow> string" where
  "event_signature e =
     event_name e @ ''('' @ join_with '','' (map (sol_type_name \<circ> param_type) (event_params e)) @ '')''"

section \<open>The structs generated for the events\<close>

record ConditionPreparation =
  conditionId :: B256
  "oracle" :: Address
  questionId :: B256
  outcomeSlotCount :: U256

record PositionSplit =
  collateralToken :: Address
  parentCollectionId :: Address
  conditionId :: B256
  partition :: B256
  amounts :: "U256 list"
  amount :: U256

record PositionsMerge =
  collateralToken :: Address
  parentCollectionId :: Address
  conditionId :: B256
  partition :: B256
  amounts :: "U256 list"
  amount :: U256

record PayoutRedemption =
  redeemer :: Address
  collateralToken :: Address
  parentCollectionId :: B256
  conditionId :: B256
  indexSets :: "U256 list"
  amount :: U256

record OrderFilled =
  orderHash :: B256
  maker :: Address
  taker :: Address
  makerFillAmount :: U256
  takerFillAmount :: U256
  makerFee :: U256
  takerFee :: U256

record OrdersMatched =
  takerOrderHash :: B256
  makerOrderHash :: B256

record OrderCancelled =
  orderHash :: B256

record MarketPrepared =
  conditionId :: B256
  creator :: Address
  marketId :: U256
  data :: bytes

record QuestionPrepared =
  questionId :: B256
  conditionId :: B256
  creator :: Address
  data :: bytes

record PositionsConverted =
  conditionId :: B256
  stakeholder :: Address
  amount :: U256
  fee :: U256

section \<open>Contract addresses\<close>

definition CTF_ADDRESS :: string where
  "CTF_ADDRESS = ''0x4D97DCd97eC945f40cF65F87097ACe5EA0476045''"

definition CTF_EXCHANGE_ADDRESS :: string where
  "CTF_EXCHANGE_ADDRESS = ''0x4bFb41d5B3570DeFd03C39a9A4D8dE6Bd8B8982E''"

definition NEG_RISK_ADAPTER_ADDRESS :: string where
  "NEG_RISK_ADAPTER_ADDRESS = ''0xd91E80cF2E7be2e162c6513ceD06f1dD0dA35296''"

text \<open>\<open>address_from_str\<close> stands for \<open>Address::from_str\<close> of \<open>alloy\<close>.\<close>

definition contract_addresses :: "(string \<Rightarrow> Address rs) \<Rightarrow> Address list rs" where
  "contract_addresses address_from_str =
     traverse_rs address_from_str [CTF_ADDRESS, CTF_EXCHANGE_ADDRESS, NEG_RISK_ADAPTER_ADDRESS]"

text \<open>
  What the program relies on in \<open>Address::from_str\<close>: a literal of the form \<open>0x\<close> and forty
  hexadecimal digits, of either case, parses to its value.
\<close>

definition hex_digit_value :: "char \<Rightarrow> nat option" where
  "hex_digit_value c = (let n = of_char c in
     if 48 \<le> n \<and> n < 58 then Some (n - 48)
     else if 97 \<le> n \<and> n < 103 then Some (n - 87)
     else if 65 \<le> n \<and> n < 71 then Some (n - 55)
     else None)"

fun hex_value :: "nat \<Rightarrow> string \<Rightarrow> nat option" where
  "hex_value acc [] = Some acc"
| "hex_value acc (c # cs) =
     (case hex_digit_value c of None \<Rightarrow> None | Some d \<Rightarrow> hex_value (16 * acc + d) cs)"

definition address_literal_value :: "string \<Rightarrow> nat option" where
  "address_literal_value s =
     (if length s = 42 \<and> take 2 s = ''0x'' then hex_value 0 (drop 2 s) else None)"

definition address_from_str_ok :: "(string \<Rightarrow> Address rs) \<Rightarrow> bool" where
  "address_from_str_ok f \<longleftrightarrow>
     (\<forall>s v. address_literal_value s = Some v \<longrightarrow> f s = Ok (word_of_nat v))"

lemma contract_literals_value:
  "address_literal_value CTF_ADDRESS = Some 0x4D97DCd97eC945f40cF65F87097ACe5EA0476045"
  "address_literal_value CTF_EXCHANGE_ADDRESS = Some 0x4bFb41d5B3570DeFd03C39a9A4D8dE6Bd8B8982E"
  "address_literal_value NEG_RISK_ADAPTER_ADDRESS = Some 0xd91E80cF2E7be2e162c6513ceD06f1dD0dA35296"
  by (simp_all add: address_literal_value_def CTF_ADDRESS_def CTF_EXCHANGE_ADDRESS_def
      NEG_RISK_ADAPTER_ADDRESS_def hex_digit_value_def)

section \<open>Facts about the declarations\<close>

lemma set_event_kinds: "set event_kinds = UNIV"
proof -
  have "e \<in> set event_kinds" for e
    by (cases e) (simp_all add: event_kinds_def)
  then show ?thesis by blast
qed

lemma inj_event_name: "event_name a = event_name b \<longleftrightarrow> a = b"
  by (cases a; cases b) simp_all

lemma event_name_no_paren: "CHR 0x28 \<notin> set (event_name e)"
  by (cases e) simp_all

lemma event_signature_inject: "event_signature a = event_signature b \<longleftrightarrow> a = b"
proof
  assume "event_signature a = event_signature b"
  then have "event_name a = event_name b"
    unfolding event_signature_def
    by (auto intro: split_at_separator(1) [OF event_name_no_paren event_name_no_paren])
  then show "a = b" by (simp add: inj_event_name)
qed simp

section \<open>Properties\<close>

text \<open>
  The event declarations are well formed: no two events share a canonical signature, no event
  has more than the three indexed parameters a log has topics for, and the parameter names of an
  event are distinct.
\<close>

lemma event_declarations_wf:
  "(event_signature a = event_signature b \<longleftrightarrow> a = b)
    \<and> length (filter is_indexed (event_params a)) \<le> 3
    \<and> distinct (map param_name (event_params a))"
  using event_signature_inject by (cases a) simp_all

text \<open>
  \<open>contract_addresses\<close> yields the three contract constants in order, as the numbers their
  literals denote, and they are pairwise different.
\<close>

lemma contract_addresses_values:
  assumes "address_from_str_ok f"
  shows "contract_addresses f =
      Ok [0x4D97DCd97eC945f40cF65F87097ACe5EA0476045, 0x4bFb41d5B3570DeFd03C39a9A4D8dE6Bd8B8982E,
        0xd91E80cF2E7be2e162c6513ceD06f1dD0dA35296]"
proof -
  have "f s = Ok (word_of_nat v)" if "address_literal_value s = Some v" for s v
    using assms that by (simp add: address_from_str_ok_def)
  note lit = this [OF contract_literals_value(1)] this [OF contract_literals_value(2)]
    this [OF contract_literals_value(3)]
  show ?thesis by (simp add: contract_addresses_def lit)
qed

end
