(* ===== verification/Decode.thy ===== *)
theory Decode
  imports Contracts
begin

text \<open>
  Model of \<open>src/src/decode.rs\<close>: routing a log by its first topic to the decoder of one of the
  ten events, and normalising the decoded struct to an event type and a list of named string
  columns. The ABI decoders, Keccak-256, \<open>serde_json\<close> and the rendering of its values are
  parameters, gathered in the record \<open>alloy\<close>.
\<close>

section \<open>Logs and the parameters\<close>

text \<open>The fields of \<open>alloy::rpc::types::Log\<close> the program reads; the metadata of a log is optional.\<close>

record Log =
  topics :: "B256 list"
  log_data :: bytes
  block_number :: "u64 option"
  transaction_hash :: "B256 option"
  log_index :: "u64 option"

text \<open>\<open>serde_json::Value\<close>\<close>

datatype json =
    JNull | JBool bool | JNumber string | JString string | JArray "json list"
  | JObject "(string \<times> json) list"

record alloy =
  keccak256 :: "string \<Rightarrow> B256"
  b256_to_string :: "B256 \<Rightarrow> string"
  to_value :: "sol_value \<Rightarrow> json rs"
  json_display :: "json \<Rightarrow> string"
  abi_ConditionPreparation :: "Log \<Rightarrow> ConditionPreparation rs"
  abi_PositionSplit :: "Log \<Rightarrow> PositionSplit rs"
  abi_PositionsMerge :: "Log \<Rightarrow> PositionsMerge rs"
  abi_PayoutRedemption :: "Log \<Rightarrow> PayoutRedemption rs"
  abi_OrderFilled :: "Log \<Rightarrow> OrderFilled rs"
  abi_OrdersMatched :: "Log \<Rightarrow> OrdersMatched rs"
  abi_OrderCancelled :: "Log \<Rightarrow> OrderCancelled rs"
  abi_MarketPrepared :: "Log \<Rightarrow> MarketPrepared rs"
  abi_QuestionPrepared :: "Log \<Rightarrow> QuestionPrepared rs"
  abi_PositionsConverted :: "Log \<Rightarrow> PositionsConverted rs"

text \<open>The constant \<open>SIGNATURE_HASH\<close> the \<open>sol!\<close> macro generates for an event.\<close>

definition SIGNATURE_HASH :: "alloy \<Rightarrow> event_kind \<Rightarrow> B256" where
  "SIGNATURE_HASH A e = keccak256 A (event_signature e)"

section \<open>Decoding\<close>

record DecodedEvent =
  event_type :: string
  columns :: "(string \<times> string) list"

definition topic0 :: "Log \<Rightarrow> B256 option" where
  "topic0 log = (case topics log of [] \<Rightarrow> None | t # _ \<Rightarrow> Some t)"

definition value_to_string :: "alloy \<Rightarrow> sol_value \<Rightarrow> string rs" where
  "value_to_string A v =
     bind_rs (to_value A v) (\<lambda>value. Ok (case value of
         JString s \<Rightarrow> s
       | other \<Rightarrow> json_display A other))"

text \<open>The columns of an event literal: each value is rendered in turn, a failure ends the literal.\<close>

definition render_columns :: "alloy \<Rightarrow> (string \<times> sol_value) list \<Rightarrow> (string \<times> string) list rs" where
  "render_columns A =
     traverse_rs (\<lambda>(name, v). map_rs_value (Pair name) (value_to_string A v))"

definition event_of :: "alloy \<Rightarrow> string \<Rightarrow> (string \<times> sol_value) list \<Rightarrow> DecodedEvent option rs" where
  "event_of A name cols =
     map_rs_value (\<lambda>cs. Some \<lparr>event_type = name, columns = cs\<rparr>) (render_columns A cols)"

definition decode_ConditionPreparation :: "alloy \<Rightarrow> Log \<Rightarrow> DecodedEvent option rs" where
  "decode_ConditionPreparation A log =
     bind_rs (abi_ConditionPreparation A log) (\<lambda>event. event_of A ''ConditionPreparation''
       [(''condition_id'', SB256 (ConditionPreparation.conditionId event)),
        (''oracle'', SAddress (ConditionPreparation.oracle event)),
        (''question_id'', SB256 (ConditionPreparation.questionId event)),
        (''outcome_slot_count'', SU256 (ConditionPreparation.outcomeSlotCount event))])"

definition decode_PositionSplit :: "alloy \<Rightarrow> Log \<Rightarrow> DecodedEvent option rs" where
  "decode_PositionSplit A log =
     bind_rs (abi_PositionSplit A log) (\<lambda>event. event_of A ''PositionSplit''
       [(''collateral_token'', SAddress (PositionSplit.collateralToken event)),
        (''parent_collection_id'', SAddress (PositionSplit.parentCollectionId event)),
        (''condition_id'', SB256 (PositionSplit.conditionId event)),
        (''partition'', SB256 (PositionSplit.partition event)),
        (''amounts'', SU256Array (PositionSplit.amounts event)),
        (''amount'', SU256 (PositionSplit.amount event))])"

definition decode_PositionsMerge :: "alloy \<Rightarrow> Log \<Rightarrow> DecodedEvent option rs" where
  "decode_PositionsMerge A log =
     bind_rs (abi_PositionsMerge A log) (\<lambda>event. event_of A ''PositionsMerge''
       [(''collateral_token'', SAddress (PositionsMerge.collateralToken event)),
        (''parent_collection_id'', SAddress (PositionsMerge.parentCollectionId event)),
        (''condition_id'', SB256 (PositionsMerge.conditionId event)),
        (''partition'', SB256 (PositionsMerge.partition event)),
        (''amounts'', SU256Array (PositionsMerge.amounts event)),
        (''amount'', SU256 (PositionsMerge.amount event))])"

definition decode_PayoutRedemption :: "alloy \<Rightarrow> Log \<Rightarrow> DecodedEvent option rs" where
  "decode_PayoutRedemption A log =
     bind_rs (abi_PayoutRedemption A log) (\<lambda>event. event_of A ''PayoutRedemption''
       [(''redeemer'', SAddress (PayoutRedemption.redeemer event)),
        (''collateral_token'', SAddress (PayoutRedemption.collateralToken event)),
        (''parent_collection_id'', SB256 (PayoutRedemption.parentCollectionId event)),
        (''condition_id'', SB256 (PayoutRedemption.conditionId event)),
        (''index_sets'', SU256Array (PayoutRedemption.indexSets event)),
        (''amount'', SU256 (PayoutRedemption.amount event))])"

definition decode_OrderFilled :: "alloy \<Rightarrow> Log \<Rightarrow> DecodedEvent option rs" where
  "decode_OrderFilled A log =
     bind_rs (abi_OrderFilled A log) (\<lambda>event. event_of A ''OrderFilled''
       [(''order_hash'', SB256 (OrderFilled.orderHash event)),
        (''maker'', SAddress (OrderFilled.maker event)),
        (''taker'', SAddress (OrderFilled.taker event)),
        (''maker_fill_amount'', SU256 (OrderFilled.makerFillAmount event)),
        (''taker_fill_amount'', SU256 (OrderFilled.takerFillAmount event)),
        (''maker_fee'', SU256 (OrderFilled.makerFee event)),
        (''taker_fee'', SU256 (OrderFilled.takerFee event))])"

definition decode_OrdersMatched :: "alloy \<Rightarrow> Log \<Rightarrow> DecodedEvent option rs" where
  "decode_OrdersMatched A log =
     bind_rs (abi_OrdersMatched A log) (\<lambda>event. event_of A ''OrdersMatched''
       [(''taker_order_hash'', SB256 (OrdersMatched.takerOrderHash event)),
        (''maker_order_hash'', SB256 (OrdersMatched.makerOrderHash event))])"

definition decode_OrderCancelled :: "alloy \<Rightarrow> Log \<Rightarrow> DecodedEvent option rs" where
  "decode_OrderCancelled A log =
     bind_rs (abi_OrderCancelled A log) (\<lambda>event. event_of A ''OrderCancelled''
       [(''order_hash'', SB256 (OrderCancelled.orderHash event))])"

definition decode_MarketPrepared :: "alloy \<Rightarrow> Log \<Rightarrow> DecodedEvent option rs" where
  "decode_MarketPrepared A log =
     bind_rs (abi_MarketPrepared A log) (\<lambda>event. event_of A ''MarketPrepared''
       [(''condition_id'', SB256 (MarketPrepared.conditionId event)),
        (''creator'', SAddress (MarketPrepared.creator event)),
        (''market_id'', SU256 (MarketPrepared.marketId event)),
        (''data'', SBytes (MarketPrepared.data event))])"

definition decode_QuestionPrepared :: "alloy \<Rightarrow> Log \<Rightarrow> DecodedEvent option rs" where
  "decode_QuestionPrepared A log =
     bind_rs (abi_QuestionPrepared A log) (\<lambda>event. event_of A ''QuestionPrepared''
       [(''question_id'', SB256 (QuestionPrepared.questionId event)),
        (''condition_id'', SB256 (QuestionPrepared.conditionId event)),
        (''creator'', SAddress (QuestionPrepared.creator event)),
        (''data'', SBytes (QuestionPrepared.data event))])"

definition decode_PositionsConverted :: "alloy \<Rightarrow> Log \<Rightarrow> DecodedEvent option rs" where
  "decode_PositionsConverted A log =
     bind_rs (abi_PositionsConverted A log) (\<lambda>event. event_of A ''PositionsConverted''
       [(''condition_id'', SB256 (PositionsConverted.conditionId event)),
        (''stakeholder'', SAddress (PositionsConverted.stakeholder event)),
        (''amount'', SU256 (PositionsConverted.amount event)),
        (''fee'', SU256 (PositionsConverted.fee event))])"

definition decode_log :: "alloy \<Rightarrow> Log \<Rightarrow> DecodedEvent option rs" where
  "decode_log A log =
     (case topic0 log of
        None \<Rightarrow> Ok None
      | Some t \<Rightarrow>
          if t = SIGNATURE_HASH A ConditionPreparation then decode_ConditionPreparation A log
          else if t = SIGNATURE_HASH A PositionSplit then decode_PositionSplit A log
          else if t = SIGNATURE_HASH A PositionsMerge then decode_PositionsMerge A log
          else if t = SIGNATURE_HASH A PayoutRedemption then decode_PayoutRedemption A log
          else if t = SIGNATURE_HASH A OrderFilled then decode_OrderFilled A log
          else if t = SIGNATURE_HASH A OrdersMatched then decode_OrdersMatched A log
          else if t = SIGNATURE_HASH A OrderCancelled then decode_OrderCancelled A log
          else if t = SIGNATURE_HASH A MarketPrepared then decode_MarketPrepared A log
          else if t = SIGNATURE_HASH A QuestionPrepared then decode_QuestionPrepared A log
          else if t = SIGNATURE_HASH A PositionsConverted then decode_PositionsConverted A log
          else Ok None)"

text \<open>The column names each decoder fixes, by event; the schema every sink file of the event has.\<close>

fun column_names :: "event_kind \<Rightarrow> string list" where
  "column_names ConditionPreparation = [''condition_id'', ''oracle'', ''question_id'', ''outcome_slot_count'']"
| "column_names PositionSplit = [''collateral_token'', ''parent_collection_id'', ''condition_id'', ''partition'', ''amounts'', ''amount'']"
| "column_names PositionsMerge = [''collateral_token'', ''parent_collection_id'', ''condition_id'', ''partition'', ''amounts'', ''amount'']"
| "column_names PayoutRedemption = [''redeemer'', ''collateral_token'', ''parent_collection_id'', ''condition_id'', ''index_sets'', ''amount'']"
| "column_names OrderFilled = [''order_hash'', ''maker'', ''taker'', ''maker_fill_amount'', ''taker_fill_amount'', ''maker_fee'', ''taker_fee'']"
| "column_names OrdersMatched = [''taker_order_hash'', ''maker_order_hash'']"
| "column_names OrderCancelled = [''order_hash'']"
| "column_names MarketPrepared = [''condition_id'', ''creator'', ''market_id'', ''data'']"
| "column_names QuestionPrepared = [''question_id'', ''condition_id'', ''creator'', ''data'']"
| "column_names PositionsConverted = [''condition_id'', ''stakeholder'', ''amount'', ''fee'']"

fun decode_branch :: "event_kind \<Rightarrow> alloy \<Rightarrow> Log \<Rightarrow> DecodedEvent option rs" where
  "decode_branch ConditionPreparation = decode_ConditionPreparation"
| "decode_branch PositionSplit = decode_PositionSplit"
| "decode_branch PositionsMerge = decode_PositionsMerge"
| "decode_branch PayoutRedemption = decode_PayoutRedemption"
| "decode_branch OrderFilled = decode_OrderFilled"
| "decode_branch OrdersMatched = decode_OrdersMatched"
| "decode_branch OrderCancelled = decode_OrderCancelled"
| "decode_branch MarketPrepared = decode_MarketPrepared"
| "decode_branch QuestionPrepared = decode_QuestionPrepared"
| "decode_branch PositionsConverted = decode_PositionsConverted"

section \<open>The decoders against the declarations\<close>

text \<open>Camel case to snake case: an upper-case letter becomes an underscore and the lower-case letter.\<close>

fun snake_case :: "string \<Rightarrow> string" where
  "snake_case [] = []"
| "snake_case (c # cs) =
     (if to_ascii_lower c = c then c # snake_case cs
      else CHR ''_'' # to_ascii_lower c # snake_case cs)"

fun value_type :: "sol_value \<Rightarrow> sol_type" where
  "value_type (SB256 x) = Bytes32"
| "value_type (SAddress x) = Addr"
| "value_type (SU256 x) = Uint256"
| "value_type (SU256Array x) = Uint256Array"
| "value_type (SBytes x) = DynBytes"

text \<open>The struct an ABI decoder returns, flattened in declaration order.\<close>

fun abi_values :: "event_kind \<Rightarrow> alloy \<Rightarrow> Log \<Rightarrow> sol_value list rs" where
  "abi_values ConditionPreparation A log =
     map_rs_value (\<lambda>event. [SB256 (ConditionPreparation.conditionId event),
        SAddress (ConditionPreparation.oracle event),
        SB256 (ConditionPreparation.questionId event),
        SU256 (ConditionPreparation.outcomeSlotCount event)])
       (abi_ConditionPreparation A log)"
| "abi_values PositionSplit A log =
     map_rs_value (\<lambda>event. [SAddress (PositionSplit.collateralToken event),
        SAddress (PositionSplit.parentCollectionId event),
        SB256 (PositionSplit.conditionId event), SB256 (PositionSplit.partition event),
        SU256Array (PositionSplit.amounts event), SU256 (PositionSplit.amount event)])
       (abi_PositionSplit A log)"
| "abi_values PositionsMerge A log =
     map_rs_value (\<lambda>event. [SAddress (PositionsMerge.collateralToken event),
        SAddress (PositionsMerge.parentCollectionId event),
        SB256 (PositionsMerge.conditionId event), SB256 (PositionsMerge.partition event),
        SU256Array (PositionsMerge.amounts event), SU256 (PositionsMerge.amount event)])
       (abi_PositionsMerge A log)"
| "abi_values PayoutRedemption A log =
     map_rs_value (\<lambda>event. [SAddress (PayoutRedemption.redeemer event),
        SAddress (PayoutRedemption.collateralToken event),
        SB256 (PayoutRedemption.parentCollectionId event),
        SB256 (PayoutRedemption.conditionId event),
        SU256Array (PayoutRedemption.indexSets event), SU256 (PayoutRedemption.amount event)])
       (abi_PayoutRedemption A log)"
| "abi_values OrderFilled A log =
     map_rs_value (\<lambda>event. [SB256 (OrderFilled.orderHash event),
        SAddress (OrderFilled.maker event), SAddress (OrderFilled.taker event),
        SU256 (OrderFilled.makerFillAmount event), SU256 (OrderFilled.takerFillAmount event),
        SU256 (OrderFilled.makerFee event), SU256 (OrderFilled.takerFee event)])
       (abi_OrderFilled A log)"
| "abi_values OrdersMatched A log =
     map_rs_value (\<lambda>event. [SB256 (OrdersMatched.takerOrderHash event),
        SB256 (OrdersMatched.makerOrderHash event)])
       (abi_OrdersMatched A log)"
| "abi_values OrderCancelled A log =
     map_rs_value (\<lambda>event. [SB256 (OrderCancelled.orderHash event)])
       (abi_OrderCancelled A log)"
| "abi_values MarketPrepared A log =
     map_rs_value (\<lambda>event. [SB256 (MarketPrepared.conditionId event),
        SAddress (MarketPrepared.creator event), SU256 (MarketPrepared.marketId event),
        SBytes (MarketPrepared.data event)])
       (abi_MarketPrepared A log)"
| "abi_values QuestionPrepared A log =
     map_rs_value (\<lambda>event. [SB256 (QuestionPrepared.questionId event),
        SB256 (QuestionPrepared.conditionId event), SAddress (QuestionPrepared.creator event),
        SBytes (QuestionPrepared.data event)])
       (abi_QuestionPrepared A log)"
| "abi_values PositionsConverted A log =
     map_rs_value (\<lambda>event. [SB256 (PositionsConverted.conditionId event),
        SAddress (PositionsConverted.stakeholder event), SU256 (PositionsConverted.amount event),
        SU256 (PositionsConverted.fee event)])
       (abi_PositionsConverted A log)"

lemma column_names_snake_case: "column_names e = map (snake_case \<circ> param_name) (event_params e)"
  by (cases e; simp only:; code_simp)

lemma abi_values_typed:
  "abi_values e A log = Ok vs \<Longrightarrow> map value_type vs = map param_type (event_params e)"
  by (cases e) auto

lemmas decode_branch_defs =
    decode_ConditionPreparation_def decode_PositionSplit_def decode_PositionsMerge_def
    decode_PayoutRedemption_def decode_OrderFilled_def decode_OrdersMatched_def
    decode_OrderCancelled_def decode_MarketPrepared_def decode_QuestionPrepared_def
    decode_PositionsConverted_def

lemma bind_map_rs_value: "bind_rs (map_rs_value f m) k = bind_rs m (\<lambda>a. k (f a))"
  by (cases m) simp_all

lemma decode_branch_abi_values:
  "decode_branch e A log =
     bind_rs (abi_values e A log) (\<lambda>vs. event_of A (event_name e) (zip (column_names e) vs))"
  by (cases e) (simp_all add: decode_branch_defs bind_map_rs_value)

section \<open>Schema of decoded events\<close>

lemma render_columns_names:
  "render_columns A cols = Ok cs \<Longrightarrow> map fst cs = map fst cols"
  unfolding render_columns_def traverse_rs_Ok_iff
  by (induction rule: list_all2_induct) (auto split: prod.splits)

lemma render_columns_values:
  "render_columns A cols = Ok cs \<Longrightarrow>
    list_all2 (\<lambda>v s. value_to_string A v = Ok s) (map snd cols) (map snd cs)"
  unfolding render_columns_def traverse_rs_Ok_iff
  by (induction rule: list_all2_induct) (auto split: prod.splits)

lemma render_columns_error:
  assumes "render_columns A cols = Err x"
  obtains us v ws ss where "map snd cols = us @ v # ws" and "value_to_string A v = Err x"
    and "traverse_rs (value_to_string A) us = Ok ss"
proof -
  from assms obtain us c ws ys where cols: "cols = us @ c # ws"
    and pre: "traverse_rs (\<lambda>(name, v). map_rs_value (Pair name) (value_to_string A v)) us = Ok ys"
    and err: "(case c of (name, v) \<Rightarrow> map_rs_value (Pair name) (value_to_string A v)) = Err x"
    unfolding render_columns_def by (rule traverse_rs_Err_first)
  from pre have "traverse_rs (value_to_string A) (map snd us) = Ok (map snd ys)"
    by (induction us arbitrary: ys) (auto split: prod.splits)
  with cols err show thesis
    by (intro that [of "map snd us" "snd c" "map snd ws" "map snd ys"]) (auto split: prod.splits)
qed

lemma event_of_Ok_elim:
  assumes "event_of A name cols = Ok r"
  obtains d where "r = Some d" and "event_type d = name" and "map fst (columns d) = map fst cols"
    and "render_columns A cols = Ok (columns d)"
proof -
  from assms obtain cs where cs: "render_columns A cols = Ok cs"
    and r: "r = Some \<lparr>event_type = name, columns = cs\<rparr>"
    by (auto simp: event_of_def)
  from r show thesis
    by (rule that) (simp_all add: cs render_columns_names [OF cs])
qed

lemma abi_values_length:
  "abi_values e A log = Ok vs \<Longrightarrow> length vs = length (column_names e)"
  by (drule abi_values_typed, drule arg_cong [where f = length]) (simp add: column_names_snake_case)

lemma decode_branch_schema:
  assumes "decode_branch e A log = Ok r"
  obtains d where "r = Some d" and "event_type d = event_name e"
    and "map fst (columns d) = column_names e"
proof -
  from assms obtain vs where vs: "abi_values e A log = Ok vs"
    and ev: "event_of A (event_name e) (zip (column_names e) vs) = Ok r"
    by (auto simp: decode_branch_abi_values)
  from abi_values_length [OF vs] ev that show thesis
    by (auto elim!: event_of_Ok_elim)
qed

section \<open>Routing\<close>

text \<open>The table-driven dispatcher the chain of comparisons amounts to.\<close>

definition route :: "alloy \<Rightarrow> Log \<Rightarrow> event_kind option" where
  "route A log = (case topic0 log of
      None \<Rightarrow> None
    | Some t \<Rightarrow> find (\<lambda>e. SIGNATURE_HASH A e = t) event_kinds)"

lemma decode_log_route:
  "decode_log A log = (case route A log of None \<Rightarrow> Ok None | Some e \<Rightarrow> decode_branch e A log)"
  unfolding decode_log_def route_def event_kinds_def
  by (cases "topic0 log") (simp_all add: eq_commute)

lemma route_Some: "route A log = Some e \<Longrightarrow> topic0 log = Some (SIGNATURE_HASH A e)"
  by (auto simp: route_def find_Some_iff split: option.splits)

lemma route_None_iff: "route A log = None \<longleftrightarrow> (\<forall>e. topic0 log \<noteq> Some (SIGNATURE_HASH A e))"
  by (auto simp: route_def find_None_iff set_event_kinds split: option.splits)

text \<open>
  What the program relies on in Keccak-256: the ten declared signatures do not collide.
\<close>

definition keccak_ok :: "alloy \<Rightarrow> bool" where
  "keccak_ok A \<longleftrightarrow> inj_on (keccak256 A) (range event_signature)"

lemma SIGNATURE_HASH_inject:
  "keccak_ok A \<Longrightarrow> SIGNATURE_HASH A a = SIGNATURE_HASH A b \<longleftrightarrow> a = b"
  by (auto simp: keccak_ok_def SIGNATURE_HASH_def inj_on_def event_signature_inject)

lemma route_matching:
  assumes "keccak_ok A" and "topic0 log = Some (SIGNATURE_HASH A e)"
  shows "route A log = Some e"
proof (cases "route A log")
  case None
  with assms(2) show ?thesis by (auto simp: route_None_iff)
next
  case (Some e')
  then have "SIGNATURE_HASH A e' = SIGNATURE_HASH A e"
    using assms(2) by (auto dest: route_Some)
  with Some assms(1) show ?thesis by (simp add: SIGNATURE_HASH_inject)
qed

section \<open>The interface to the ingestion runtimes\<close>

text \<open>The columns of an event type, by its name.\<close>

definition column_schema :: "string \<Rightarrow> string list option" where
  "column_schema name = map_option column_names (find (\<lambda>e. event_name e = name) event_kinds)"

lemma column_schema_event_name [simp]: "column_schema (event_name e) = Some (column_names e)"
proof -
  have "find (\<lambda>e'. event_name e' = event_name e) event_kinds = Some e"
    by (cases e) (simp_all add: event_kinds_def)
  then show ?thesis by (simp add: column_schema_def)
qed

text \<open>
  The ingestion runtimes use a decoder through one law: the columns of a decoded event are
  determined by its event type.
\<close>

locale event_decoder =
  fixes decode :: "Log \<Rightarrow> DecodedEvent option rs"
    and schema :: "string \<Rightarrow> string list option"
  assumes decoded_schema:
    "decode log = Ok (Some d) \<Longrightarrow> schema (event_type d) = Some (map fst (columns d))"
begin

lemma same_type_same_columns:
  "decode log = Ok (Some d) \<Longrightarrow> decode log' = Ok (Some d') \<Longrightarrow> event_type d = event_type d' \<Longrightarrow>
    map fst (columns d) = map fst (columns d')"
  by (auto dest!: decoded_schema)

lemma decoded_width:
  "decode log = Ok (Some d) \<Longrightarrow> schema (event_type d) = Some ns \<Longrightarrow> length (columns d) = length ns"
  by (auto dest!: decoded_schema)

end

lemma decode_log_kind:
  assumes "decode_log A log = Ok (Some d)"
  obtains e where "topic0 log = Some (SIGNATURE_HASH A e)" and "event_type d = event_name e"
    and "map fst (columns d) = column_names e"
proof -
  from assms obtain e where e: "route A log = Some e" and b: "decode_branch e A log = Ok (Some d)"
    by (auto simp: decode_log_route split: option.splits)
  from b show thesis
    by (rule decode_branch_schema) (use that e in \<open>auto dest: route_Some\<close>)
qed

interpretation decoder: event_decoder "decode_log A" column_schema for A
  by unfold_locales (auto elim!: decode_log_kind)

section \<open>A concrete instance of the parameters\<close>

text \<open>
  An instance on which the hypotheses of the properties below hold: a hash that tells the ten
  signatures apart by their length, values
  rendered as JSON strings, and ABI decoders that read the two events without data from the
  topics. It only serves to show that the properties apply.
\<close>

definition sample_hash :: "string \<Rightarrow> B256" where
  "sample_hash s = word_of_nat (length s)"

fun sample_json :: "sol_value \<Rightarrow> json rs" where
  "sample_json (SB256 w) = Ok (JString (show_nat (unat w)))"
| "sample_json (SAddress w) = Ok (JString (show_nat (unat w)))"
| "sample_json (SU256 w) = Ok (JString (show_nat (unat w)))"
| "sample_json (SU256Array ws) = Ok (JArray (map (JString \<circ> show_nat \<circ> unat) ws))"
| "sample_json (SBytes bs) = Err ''bytes are not rendered by this instance''"

definition sample_alloy :: alloy where
  "sample_alloy = \<lparr>
     keccak256 = sample_hash,
     b256_to_string = (\<lambda>w. ''0x'' @ show_nat (unat w)),
     to_value = sample_json,
     json_display = (\<lambda>j. ''[]''),
     abi_ConditionPreparation = (\<lambda>log. Err ''ABI decoding failed''),
     abi_PositionSplit = (\<lambda>log. Err ''ABI decoding failed''),
     abi_PositionsMerge = (\<lambda>log. Err ''ABI decoding failed''),
     abi_PayoutRedemption = (\<lambda>log. Err ''ABI decoding failed''),
     abi_OrderFilled = (\<lambda>log. Err ''ABI decoding failed''),
     abi_OrdersMatched = (\<lambda>log. case topics log of
         [_, t, m] \<Rightarrow> Ok \<lparr>takerOrderHash = t, makerOrderHash = m\<rparr>
       | _ \<Rightarrow> Err ''ABI decoding failed''),
     abi_OrderCancelled = (\<lambda>log. case topics log of
         [_, h] \<Rightarrow> Ok \<lparr>OrderCancelled.orderHash = h\<rparr>
       | _ \<Rightarrow> Err ''ABI decoding failed''),
     abi_MarketPrepared = (\<lambda>log. Err ''ABI decoding failed''),
     abi_QuestionPrepared = (\<lambda>log. Err ''ABI decoding failed''),
     abi_PositionsConverted = (\<lambda>log. Err ''ABI decoding failed'')\<rparr>"

definition sample_log :: "event_kind \<Rightarrow> B256 list \<Rightarrow> u64 \<Rightarrow> u64 \<Rightarrow> Log" where
  "sample_log e ts b i = \<lparr>topics = SIGNATURE_HASH sample_alloy e # ts, log_data = [],
     block_number = Some b, transaction_hash = Some (word_of_nat (unat b)), log_index = Some i\<rparr>"

lemma keccak_ok_sample: "keccak_ok sample_alloy"
proof -
  have "distinct (map (sample_hash \<circ> event_signature) event_kinds)"
    by (simp add: sample_hash_def event_kinds_def event_signature_def)
  then have "inj_on (sample_hash \<circ> event_signature) UNIV"
    by (simp add: distinct_map set_event_kinds)
  then show ?thesis
    by (simp add: keccak_ok_def sample_alloy_def inj_on_imageI)
qed

section \<open>Properties\<close>

text \<open>
  C2. Decoding is faithful to the contract declarations: a decoded event is one of the ten whose
  signature hash is the first topic of the log, its columns are the event's parameters in
  declaration order under their snake-case names, and each column holds the rendering of the
  corresponding ABI value.
\<close>

theorem decode_log_faithful:
  assumes "decode_log A log = Ok (Some d)"
  shows "\<exists>e vs. topic0 log = Some (SIGNATURE_HASH A e) \<and> event_type d = event_name e
      \<and> map fst (columns d) = map (snake_case \<circ> param_name) (event_params e)
      \<and> abi_values e A log = Ok vs \<and> map value_type vs = map param_type (event_params e)
      \<and> list_all2 (\<lambda>v s. value_to_string A v = Ok s) vs (map snd (columns d))"
proof -
  from assms obtain e where e: "route A log = Some e" and b: "decode_branch e A log = Ok (Some d)"
    by (auto simp: decode_log_route split: option.splits)
  then obtain vs where vs: "abi_values e A log = Ok vs"
    and ev: "event_of A (event_name e) (zip (column_names e) vs) = Ok (Some d)"
    by (auto simp: decode_branch_abi_values)
  note len = abi_values_length [OF vs]
  from ev have d: "event_type d = event_name e" "map fst (columns d) = column_names e"
    and r: "render_columns A (zip (column_names e) vs) = Ok (columns d)"
    using len by (auto elim!: event_of_Ok_elim)
  from render_columns_values [OF r] len
  have "list_all2 (\<lambda>v s. value_to_string A v = Ok s) vs (map snd (columns d))" by simp
  with e d vs show ?thesis
    by (intro exI [of _ e] exI [of _ vs])
      (simp add: route_Some abi_values_typed column_names_snake_case)
qed

theorem decode_log_faithful_witness:
  "\<exists>e vs. topic0 (sample_log OrderCancelled [5] 9 0) = Some (SIGNATURE_HASH sample_alloy e)
      \<and> ''OrderCancelled'' = event_name e
      \<and> map fst [(''order_hash'', ''5'')] = map (snake_case \<circ> param_name) (event_params e)
      \<and> abi_values e sample_alloy (sample_log OrderCancelled [5] 9 0) = Ok vs
      \<and> map value_type vs = map param_type (event_params e)
      \<and> list_all2 (\<lambda>v s. value_to_string sample_alloy v = Ok s) vs [''5'']"
proof -
  have "decode_log sample_alloy (sample_log OrderCancelled [5] 9 0)
      = Ok (Some \<lparr>event_type = ''OrderCancelled'', columns = [(''order_hash'', ''5'')]\<rparr>)"
    by (simp add: decode_log_def topic0_def sample_log_def SIGNATURE_HASH_def sample_alloy_def
        sample_hash_def event_signature_def decode_OrderCancelled_def event_of_def
        render_columns_def value_to_string_def show_nat.simps)
  from decode_log_faithful [OF this] show ?thesis by simp
qed

text \<open>
  C13. Routing is by signature hash alone: when the ten signatures do not collide under Keccak-256,
  a log whose first topic is the hash of an event is decoded as that event, whatever the order of
  the comparisons: its ABI values are rendered under the event's column names.
\<close>

theorem decode_log_dispatch:
  assumes "keccak_ok A" and "topic0 log = Some (SIGNATURE_HASH A e)"
  shows "decode_log A log =
      bind_rs (abi_values e A log) (\<lambda>vs.
        event_of A (event_name e) (zip (map (snake_case \<circ> param_name) (event_params e)) vs))"
  using route_matching [OF assms]
  by (simp add: decode_log_route decode_branch_abi_values column_names_snake_case)

theorem decode_log_dispatch_witness:
  "decode_log sample_alloy (sample_log OrdersMatched [3, 4] 9 0) =
      bind_rs (abi_values OrdersMatched sample_alloy (sample_log OrdersMatched [3, 4] 9 0)) (\<lambda>vs.
        event_of sample_alloy (event_name OrdersMatched)
          (zip (map (snake_case \<circ> param_name) (event_params OrdersMatched)) vs))"
  by (rule decode_log_dispatch [OF keccak_ok_sample]) (simp add: topic0_def sample_log_def)

text \<open>
  A log is skipped, neither decoded nor an error, exactly when it has no topic or its first
  topic is none of the ten signature hashes.
\<close>

lemma decode_log_skips:
  "decode_log A log = Ok None \<longleftrightarrow> (\<forall>e. topic0 log \<noteq> Some (SIGNATURE_HASH A e))"
proof -
  have "decode_branch e A log \<noteq> Ok None" for e
    by (auto elim: decode_branch_schema)
  then show ?thesis
    by (auto simp: decode_log_route route_None_iff [symmetric] split: option.splits)
qed

text \<open>
  Decoding fails only for a log of one of the ten events, either with the error of
  its ABI decoder, or with the error of the first value, in declaration order, that cannot be
  rendered.
\<close>

lemma decode_log_Err:
  assumes "decode_log A log = Err x"
  shows "\<exists>e. topic0 log = Some (SIGNATURE_HASH A e) \<and>
      (abi_values e A log = Err x
       \<or> (\<exists>us v ws. abi_values e A log = Ok (us @ v # ws) \<and> value_to_string A v = Err x
            \<and> (\<exists>ss. traverse_rs (value_to_string A) us = Ok ss)))"
proof -
  from assms obtain e where e: "route A log = Some e" and b: "decode_branch e A log = Err x"
    by (auto simp: decode_log_route split: option.splits)
  from b consider "abi_values e A log = Err x"
    | vs where "abi_values e A log = Ok vs"
        and "render_columns A (zip (column_names e) vs) = Err x"
    by (auto simp: decode_branch_abi_values bind_rs_Err_iff event_of_def)
  then show ?thesis
  proof cases
    case 1
    with e show ?thesis by (auto dest: route_Some)
  next
    case 2
    have vs: "map snd (zip (column_names e) vs) = vs"
      using abi_values_length [OF 2(1)] by simp
    obtain us v ws ss where "vs = us @ v # ws" and "value_to_string A v = Err x"
      and "traverse_rs (value_to_string A) us = Ok ss"
      by (rule render_columns_error [OF 2(2), unfolded vs])
    with 2(1) e show ?thesis by (blast dest: route_Some)
  qed
qed

text \<open>
  C30. The outcomes other than an event: a log is skipped, neither decoded nor an error, exactly when it has
  no topic or its first topic is none of the ten signature hashes; and decoding fails only for a log of one
  of the ten events, either with the error of its ABI decoder, or with the error of the first value, in
  declaration order, that cannot be rendered.
\<close>

theorem decode_log_outcomes:
  "(decode_log A log = Ok None \<longleftrightarrow> (\<forall>e. topic0 log \<noteq> Some (SIGNATURE_HASH A e)))
    \<and> (decode_log A log = Err x \<longrightarrow>
        (\<exists>e. topic0 log = Some (SIGNATURE_HASH A e) \<and>
          (abi_values e A log = Err x
           \<or> (\<exists>us v ws. abi_values e A log = Ok (us @ v # ws) \<and> value_to_string A v = Err x
                \<and> (\<exists>ss. traverse_rs (value_to_string A) us = Ok ss)))))"
  using decode_log_skips decode_log_Err by blast

theorem decode_log_outcomes_witness:
  "decode_log sample_alloy (sample_log OrderCancelled [] 9 0) = Err ''ABI decoding failed''
    \<and> (\<exists>e. topic0 (sample_log OrderCancelled [] 9 0) = Some (SIGNATURE_HASH sample_alloy e) \<and>
      (abi_values e sample_alloy (sample_log OrderCancelled [] 9 0) = Err ''ABI decoding failed''
       \<or> (\<exists>us v ws. abi_values e sample_alloy (sample_log OrderCancelled [] 9 0) = Ok (us @ v # ws)
            \<and> value_to_string sample_alloy v = Err ''ABI decoding failed''
            \<and> (\<exists>ss. traverse_rs (value_to_string sample_alloy) us = Ok ss))))"
proof -
  have err: "decode_log sample_alloy (sample_log OrderCancelled [] 9 0) = Err ''ABI decoding failed''"
    by (simp add: decode_log_def topic0_def sample_log_def SIGNATURE_HASH_def sample_alloy_def
        sample_hash_def event_signature_def decode_OrderCancelled_def)
  from decode_log_outcomes [THEN conjunct2, rule_format, OF err] err show ?thesis by blast
qed

end
