(* ===== verification/Event_Sink.thy ===== *)
theory Event_Sink
  imports Decode
begin

text \<open>
  The sink interface: \<open>trait EventSink\<close> of \<open>src/src/storage.rs\<close> as a locale. Two implementations
  provide it (\<open>Parquet_Storage\<close>, \<open>Kafka_Storage\<close>) and the frontfill runtime uses it through the
  boxed trait object (\<open>Dyn_Sink\<close>). The laws say what both promise about the schema cached per event
  type; the lemmas are proved once here.
\<close>

section \<open>Names of the stored columns\<close>

text \<open>
  \<open>expected_schema_names\<close> of both implementations: the four metadata columns, then the columns of
  the event.
\<close>

definition metadata_names :: "string list" where
  "metadata_names = [''event_type'', ''block_number'', ''transaction_hash'', ''log_index'']"

definition expected_schema_names :: "string list \<Rightarrow> string list" where
  "expected_schema_names cols = metadata_names @ cols"

definition schema_mismatch :: "string \<Rightarrow> anyhow" where
  "schema_mismatch et =
     ''schema mismatch for event type '' @ [CHR 0x27] @ et @ [CHR 0x27]"

lemma expected_schema_names_inject [simp]:
  "expected_schema_names a = expected_schema_names b \<longleftrightarrow> a = b"
  by (simp add: expected_schema_names_def)

section \<open>The operations of a sink as data\<close>

datatype sink_op =
    Write string u64 string u64 "(string \<times> string) list"
  | Rotate
  | Close

type_synonym 's sink_write =
  "string \<Rightarrow> u64 \<Rightarrow> string \<Rightarrow> u64 \<Rightarrow> (string \<times> string) list \<Rightarrow> ('s, unit) io"

fun sink_step ::
  "'s sink_write \<Rightarrow> ('s, unit) io \<Rightarrow> ('s, unit) io \<Rightarrow> sink_op \<Rightarrow> ('s, unit) io" where
  "sink_step wr ro cl (Write et b tx i cols) = wr et b tx i cols"
| "sink_step wr ro cl Rotate = ro"
| "sink_step wr ro cl Close = cl"

text \<open>The state after a sequence of calls, whatever each of them returned.\<close>

fun sink_after ::
  "'s sink_write \<Rightarrow> ('s, unit) io \<Rightarrow> ('s, unit) io \<Rightarrow> sink_op list \<Rightarrow> 's \<Rightarrow> 's" where
  "sink_after wr ro cl [] s = s"
| "sink_after wr ro cl (op # ops) s = sink_after wr ro cl ops (snd (sink_step wr ro cl op s))"

section \<open>The interface\<close>

text \<open>
  \<open>schema_of s et\<close> are the field names cached for an event type. A write whose columns do not
  match them is refused and has no effect; no operation changes a cached schema, and a write
  touches only the schema of its own event type.
\<close>

locale event_sink =
  fixes write_event :: "'s sink_write"
    and rotate :: "('s, unit) io"
    and close :: "('s, unit) io"
    and schema_of :: "'s \<Rightarrow> string \<Rightarrow> string list option"
  assumes write_mismatch:
    "schema_of s et = Some ns \<Longrightarrow> ns \<noteq> expected_schema_names (map fst cols) \<Longrightarrow>
      write_event et b tx i cols s = (Err (schema_mismatch et), s)"
    and write_keeps:
    "write_event et b tx i cols s = (r, s') \<Longrightarrow> schema_of s k = Some ns \<Longrightarrow>
      schema_of s' k = Some ns"
    and write_frame:
    "write_event et b tx i cols s = (r, s') \<Longrightarrow> k \<noteq> et \<Longrightarrow> schema_of s' k = schema_of s k"
    and rotate_schema: "rotate s = (r, s') \<Longrightarrow> schema_of s' = schema_of s"
    and close_schema: "close s = (r, s') \<Longrightarrow> schema_of s' = schema_of s"
begin

lemma step_keeps:
  "schema_of s k = Some ns \<Longrightarrow>
    schema_of (snd (sink_step write_event rotate close op s)) k = Some ns"
proof (cases op)
  case (Write et b tx i cols)
  then show "schema_of s k = Some ns \<Longrightarrow> ?thesis"
    by (cases "write_event et b tx i cols s") (auto dest: write_keeps)
next
  case Rotate
  then show "schema_of s k = Some ns \<Longrightarrow> ?thesis"
    by (cases "rotate s") (auto dest: rotate_schema)
next
  case Close
  then show "schema_of s k = Some ns \<Longrightarrow> ?thesis"
    by (cases "close s") (auto dest: close_schema)
qed

lemma after_keeps:
  "schema_of s k = Some ns \<Longrightarrow>
    schema_of (sink_after write_event rotate close ops s) k = Some ns"
  by (induction ops arbitrary: s) (auto intro: step_keeps)

lemma write_ok_matches:
  "write_event et b tx i cols s = (Ok (), s') \<Longrightarrow> schema_of s et = Some ns \<Longrightarrow>
    ns = expected_schema_names (map fst cols)"
  using write_mismatch [of s et ns cols b tx i] by auto

end

text \<open>Every cached schema is the one a given assignment of columns to event types has.\<close>

definition schemas_agree ::
  "('s \<Rightarrow> string \<Rightarrow> string list option) \<Rightarrow> (string \<Rightarrow> string list option) \<Rightarrow> 's \<Rightarrow> bool" where
  "schemas_agree schema_of schema s \<longleftrightarrow>
     (\<forall>et ns. schema_of s et = Some ns \<longrightarrow>
        (\<exists>cols. schema et = Some cols \<and> ns = expected_schema_names cols))"

lemma schemas_agreeD:
  assumes "schemas_agree schema_of schema s" and "schema_of s et = Some ns"
    and "schema et = Some cols"
  shows "ns = expected_schema_names cols"
proof -
  from assms(1,2) obtain cols' where "schema et = Some cols'" "ns = expected_schema_names cols'"
    by (auto simp: schemas_agree_def)
  with assms(3) show ?thesis by simp
qed

text \<open>
  A sink that caches the schema it derives from the first write of an event type. (The Kafka sink
  does so only as far as the Avro parser returns the schema it was given.)
\<close>

locale caching_sink = event_sink +
  assumes write_caches:
    "write_event et b tx i cols s = (r, s') \<Longrightarrow> schema_of s et = None \<Longrightarrow>
      schema_of s' et = None \<or> schema_of s' et = Some (expected_schema_names (map fst cols))"
    and write_ok_cached:
    "write_event et b tx i cols s = (Ok (), s') \<Longrightarrow> schema_of s' et \<noteq> None"
begin

lemma write_ok_schema:
  assumes "write_event et b tx i cols s = (Ok (), s')"
  shows "schema_of s' et = Some (expected_schema_names (map fst cols))"
proof (cases "schema_of s et")
  case None
  with assms show ?thesis by (metis write_caches write_ok_cached)
next
  case (Some ns)
  with assms show ?thesis by (auto dest: write_ok_matches write_keeps)
qed

lemma write_agrees:
  assumes w: "write_event et b tx i cols s = (r, s')" and agree: "schemas_agree schema_of schema s"
    and cols: "schema et = Some (map fst cols)"
  shows "schemas_agree schema_of schema s'"
  unfolding schemas_agree_def
proof (intro allI impI)
  fix k ns
  assume ns: "schema_of s' k = Some ns"
  show "\<exists>cols. schema k = Some cols \<and> ns = expected_schema_names cols"
  proof (cases "schema_of s k")
    case None
    with w ns have "k = et" by (metis option.distinct(1) write_frame)
    with w ns None cols show ?thesis by (auto dest!: write_caches)
  next
    case (Some ns')
    with w ns agree show ?thesis by (auto simp: schemas_agree_def dest: write_keeps)
  qed
qed

lemma rotate_agrees:
  "rotate s = (r, s') \<Longrightarrow> schemas_agree schema_of schema s \<Longrightarrow> schemas_agree schema_of schema s'"
  by (auto simp: schemas_agree_def dest: rotate_schema)

lemma close_agrees:
  "close s = (r, s') \<Longrightarrow> schemas_agree schema_of schema s \<Longrightarrow> schemas_agree schema_of schema s'"
  by (auto simp: schemas_agree_def dest: close_schema)

text \<open>All successful writes of an event type, over any sequence of calls, have the same columns.\<close>

lemma one_schema_per_type:
  assumes "write_event et b tx i cols s = (Ok (), s1)"
    and "write_event et b' tx' i' cols' (sink_after write_event rotate close ops s1) = (Ok (), s2)"
  shows "map fst cols' = map fst cols"
proof -
  have "schema_of (sink_after write_event rotate close ops s1) et
      = Some (expected_schema_names (map fst cols))"
    using write_ok_schema [OF assms(1)] by (rule after_keeps)
  from write_ok_matches [OF assms(2) this] show ?thesis by simp
qed

end

text \<open>Decoded events into a caching sink: a decoded event is never refused for its columns.\<close>

locale ingest = caching_sink write_event rotate close schema_of + event_decoder decode schema
  for write_event :: "'s sink_write"
    and rotate :: "('s, unit) io"
    and close :: "('s, unit) io"
    and schema_of :: "'s \<Rightarrow> string \<Rightarrow> string list option"
    and decode :: "Log \<Rightarrow> DecodedEvent option rs"
    and schema :: "string \<Rightarrow> string list option"
begin

lemma decoded_matches:
  assumes "decode log = Ok (Some d)" and "schemas_agree schema_of schema s"
    and "schema_of s (event_type d) = Some ns"
  shows "ns = expected_schema_names (map fst (columns d))"
  by (rule schemas_agreeD [OF assms(2,3) decoded_schema [OF assms(1)]])

lemma write_decoded_agrees:
  assumes d: "decode log = Ok (Some d)" and agree: "schemas_agree schema_of schema s"
    and w: "write_event (event_type d) b tx i (columns d) s = (r, s')"
  shows "schemas_agree schema_of schema s'"
  by (rule write_agrees [OF w agree decoded_schema [OF d]])

end

end
