(* ===== verification/Parquet_Api.thy ===== *)
theory Parquet_Api
  imports Event_Sink
begin

text \<open>
  What the program uses of \<open>std::fs\<close>, \<open>chrono\<close>, \<open>arrow\<close> and \<open>parquet\<close>: Arrow fields, schemas, arrays
  and record batches as data, and the fallible operations as parameters over an arbitrary outside
  world \<open>'w\<close>, with file handles \<open>'f\<close> and writer handles \<open>'h\<close>. The documented behaviour the
  properties rely on is stated as \<open>writers_ok\<close>, \<open>batches_ok\<close>, \<open>string_arrays_ok\<close> and \<open>no_panics\<close>; an
  in-memory instance at the end shows that these can hold together.
\<close>

section \<open>Arrow data\<close>

datatype DataType = Utf8 | UInt64

record Field =
  field_name :: string
  field_type :: DataType
  field_nullable :: bool

type_synonym Schema = "Field list"

definition Field_new :: "string \<Rightarrow> DataType \<Rightarrow> bool \<Rightarrow> Field" where
  "Field_new name ty nullable = \<lparr>field_name = name, field_type = ty, field_nullable = nullable\<rparr>"

datatype Array = StringArray "string list" | UInt64Array "u64 list"

fun array_type :: "Array \<Rightarrow> DataType" where
  "array_type (StringArray xs) = Utf8"
| "array_type (UInt64Array xs) = UInt64"

fun array_len :: "Array \<Rightarrow> nat" where
  "array_len (StringArray xs) = length xs"
| "array_len (UInt64Array xs) = length xs"

record RecordBatch =
  batch_schema :: Schema
  batch_columns :: "Array list"

section \<open>The operations\<close>

record ('w, 'f, 'h) parquet_api =
  path_exists :: "string \<Rightarrow> 'w \<Rightarrow> bool"
  create_dir_all :: "string \<Rightarrow> ('w, unit) io"
  timestamp_millis :: "'w \<Rightarrow> int"
  file_create :: "string \<Rightarrow> ('w, 'f) io"
  arrow_writer_new :: "'f \<Rightarrow> Schema \<Rightarrow> ('w, 'h) io"
  string_array :: "string list \<Rightarrow> Array rs"
  record_batch_new :: "Schema \<Rightarrow> Array list \<Rightarrow> RecordBatch rs"
  writer_write :: "'h \<Rightarrow> RecordBatch \<Rightarrow> ('w, unit) io"
  writer_close :: "'h \<Rightarrow> ('w, unit) io"
  iter_order :: hash_order

section \<open>Documented behaviour\<close>

text \<open>
  \<open>StringArray::from\<close> keeps the strings one after the other in a buffer with \<open>i32\<close> offsets and panics
  when the bytes exceed the largest offset; it returns no error.
\<close>

definition text_bytes :: "string list \<Rightarrow> nat" where
  "text_bytes xs = sum_list (map length xs)"

definition string_arrays_ok :: "('w, 'f, 'h) parquet_api \<Rightarrow> bool" where
  "string_arrays_ok P \<longleftrightarrow>
     (\<forall>xs. string_array P xs = (if text_bytes xs < 2 ^ 31 then Ok (StringArray xs) else Panic))"

text \<open>None of the other library calls panics.\<close>

definition no_panics :: "('w, 'f, 'h) parquet_api \<Rightarrow> bool" where
  "no_panics P \<longleftrightarrow>
     (\<forall>p w. fst (create_dir_all P p w) \<noteq> Panic) \<and>
     (\<forall>p w. fst (file_create P p w) \<noteq> Panic) \<and>
     (\<forall>f s w. fst (arrow_writer_new P f s w) \<noteq> Panic) \<and>
     (\<forall>s cols. record_batch_new P s cols \<noteq> Panic) \<and>
     (\<forall>h b w. fst (writer_write P h b w) \<noteq> Panic) \<and>
     (\<forall>h w. fst (writer_close P h w) \<noteq> Panic)"

text \<open>
  \<open>RecordBatch::try_new\<close> checks that there is one column per field, of the field's type, and that
  the columns have the same length; the batch it returns holds what it was given. An array of strings
  that could be built holds the strings.
\<close>

definition batch_fits :: "Schema \<Rightarrow> Array list \<Rightarrow> bool" where
  "batch_fits s cols \<longleftrightarrow>
     cols \<noteq> [] \<and> map field_type s = map array_type cols
     \<and> (\<forall>c \<in> set cols. array_len c = array_len (hd cols))"

definition batches_ok :: "('w, 'f, 'h) parquet_api \<Rightarrow> bool" where
  "batches_ok P \<longleftrightarrow>
     (\<forall>s cols b. record_batch_new P s cols = Ok b \<longrightarrow>
        b = \<lparr>batch_schema = s, batch_columns = cols\<rparr>) \<and>
     (\<forall>s cols. batch_fits s cols \<longrightarrow> (\<exists>b. record_batch_new P s cols = Ok b)) \<and>
     (\<forall>xs a. string_array P xs = Ok a \<longrightarrow> a = StringArray xs)"

text \<open>
  A view of the world through which the effect of the writers is described: the batches an open
  writer has accepted, the batches in the files that have been completed by \<open>close\<close>, the paths of
  the files that hold data (of an open writer or complete), and the path a file handle is for.
\<close>

record ('w, 'f, 'h) disk_view =
  open_batches :: "'w \<Rightarrow> 'h \<Rightarrow> RecordBatch list option"
  finished :: "'w \<Rightarrow> RecordBatch multiset"
  data_paths :: "'w \<Rightarrow> string set"
  file_path :: "'f \<Rightarrow> string"

text \<open>
  \<open>File::create\<close> truncates a file that exists, so it leaves the data alone only on a path that
  holds none. A new writer is a fresh handle with no batch; a successful write appends the batch; a
  successful close moves the batches of the writer to a completed file. A failing write or close
  affects no other writer and no completed file.
\<close>

definition same_data :: "('w, 'f, 'h) disk_view \<Rightarrow> 'w \<Rightarrow> 'w \<Rightarrow> bool" where
  "same_data V w w' \<longleftrightarrow> open_batches V w' = open_batches V w \<and> finished V w' = finished V w
     \<and> data_paths V w' = data_paths V w"

definition same_but :: "('w, 'f, 'h) disk_view \<Rightarrow> 'h \<Rightarrow> 'w \<Rightarrow> 'w \<Rightarrow> bool" where
  "same_but V h w w' \<longleftrightarrow> (\<forall>h'. h' \<noteq> h \<longrightarrow> open_batches V w' h' = open_batches V w h')
     \<and> finished V w' = finished V w \<and> data_paths V w' = data_paths V w"

definition writers_ok :: "('w, 'f, 'h) parquet_api \<Rightarrow> ('w, 'f, 'h) disk_view \<Rightarrow> bool" where
  "writers_ok P V \<longleftrightarrow>
     (\<forall>p r w w'. create_dir_all P p w = (r, w') \<longrightarrow> same_data V w w') \<and>
     (\<forall>p r w w'. file_create P p w = (r, w') \<longrightarrow> p \<notin> data_paths V w \<longrightarrow> same_data V w w') \<and>
     (\<forall>p f w w'. file_create P p w = (Ok f, w') \<longrightarrow> file_path V f = p) \<and>
     (\<forall>f s h w w'. arrow_writer_new P f s w = (Ok h, w') \<longrightarrow>
        open_batches V w h = None \<and> open_batches V w' = (open_batches V w)(h \<mapsto> [])
        \<and> finished V w' = finished V w \<and> data_paths V w' = insert (file_path V f) (data_paths V w)) \<and>
     (\<forall>f s w w' e. arrow_writer_new P f s w = (Err e, w') \<longrightarrow> same_data V w w') \<and>
     (\<forall>h b bs w w'. open_batches V w h = Some bs \<longrightarrow> writer_write P h b w = (Ok (), w') \<longrightarrow>
        open_batches V w' = (open_batches V w)(h \<mapsto> bs @ [b]) \<and> finished V w' = finished V w
        \<and> data_paths V w' = data_paths V w) \<and>
     (\<forall>h b w w' e. writer_write P h b w = (Err e, w') \<longrightarrow> same_but V h w w') \<and>
     (\<forall>h bs w w'. open_batches V w h = Some bs \<longrightarrow> writer_close P h w = (Ok (), w') \<longrightarrow>
        open_batches V w' = (open_batches V w)(h := None)
        \<and> finished V w' = finished V w + mset bs \<and> data_paths V w' = data_paths V w) \<and>
     (\<forall>h w w' e. writer_close P h w = (Err e, w') \<longrightarrow> same_but V h w w')"

lemmas writers_ok_create_dir =
  writers_ok_def [THEN iffD1, THEN conjunct1, rule_format]
lemmas writers_ok_file_create =
  writers_ok_def [THEN iffD1, THEN conjunct2, THEN conjunct1, rule_format]
lemmas writers_ok_file_path =
  writers_ok_def [THEN iffD1, THEN conjunct2, THEN conjunct2, THEN conjunct1, rule_format]
lemmas writers_ok_new =
  writers_ok_def [THEN iffD1, THEN conjunct2, THEN conjunct2, THEN conjunct2, THEN conjunct1, rule_format]
lemmas writers_ok_new_Err =
  writers_ok_def [THEN iffD1, THEN conjunct2, THEN conjunct2, THEN conjunct2, THEN conjunct2, THEN conjunct1, rule_format]
lemmas writers_ok_write =
  writers_ok_def [THEN iffD1, THEN conjunct2, THEN conjunct2, THEN conjunct2, THEN conjunct2, THEN conjunct2, THEN conjunct1, rule_format]
lemmas writers_ok_write_Err =
  writers_ok_def [THEN iffD1, THEN conjunct2, THEN conjunct2, THEN conjunct2, THEN conjunct2, THEN conjunct2, THEN conjunct2, THEN conjunct1, rule_format]
lemmas writers_ok_close =
  writers_ok_def [THEN iffD1, THEN conjunct2, THEN conjunct2, THEN conjunct2, THEN conjunct2, THEN conjunct2, THEN conjunct2, THEN conjunct2, THEN conjunct1, rule_format]
lemmas writers_ok_close_Err =
  writers_ok_def [THEN iffD1, THEN conjunct2, THEN conjunct2, THEN conjunct2, THEN conjunct2, THEN conjunct2, THEN conjunct2, THEN conjunct2, THEN conjunct2, rule_format]

text \<open>The calls succeed: a run without input or output errors.\<close>

definition calls_succeed :: "('w, 'f, 'h) parquet_api \<Rightarrow> ('w, 'f, 'h) disk_view \<Rightarrow> bool" where
  "calls_succeed P V \<longleftrightarrow>
     (\<forall>p w. fst (create_dir_all P p w) = Ok ()) \<and>
     (\<forall>p w. \<exists>f. fst (file_create P p w) = Ok f) \<and>
     (\<forall>f s w. \<exists>h. fst (arrow_writer_new P f s w) = Ok h) \<and>
     (\<forall>h b w. open_batches V w h \<noteq> None \<longrightarrow> fst (writer_write P h b w) = Ok ()) \<and>
     (\<forall>h w. open_batches V w h \<noteq> None \<longrightarrow> fst (writer_close P h w) = Ok ())"

section \<open>An in-memory instance\<close>

text \<open>
  Files are named by their path; the data of the open writers and of the completed files are kept
  with the path they went to, and creating a file at a path drops what it held.
\<close>

record memory =
  mem_clock :: int
  mem_dirs :: "string list"
  mem_open :: "(string \<times> RecordBatch list) option list"
  mem_done :: "(string \<times> RecordBatch list) list"
  mem_paths :: "string list"

definition memory_start :: memory where
  "memory_start = \<lparr>mem_clock = 1700000000000, mem_dirs = [], mem_open = [], mem_done = [],
     mem_paths = []\<rparr>"

definition truncate_path :: "string \<Rightarrow> memory \<Rightarrow> memory" where
  "truncate_path p w = w\<lparr>
     mem_open := map (map_option (\<lambda>(q, bs). (q, if q = p then [] else bs))) (mem_open w),
     mem_done := filter (\<lambda>(q, bs). q \<noteq> p) (mem_done w)\<rparr>"

definition mem_writer :: "memory \<Rightarrow> nat \<Rightarrow> (string \<times> RecordBatch list) option" where
  "mem_writer w h = (if h < length (mem_open w) then mem_open w ! h else None)"

definition memory_api :: "(memory, string, nat) parquet_api" where
  "memory_api = \<lparr>
     path_exists = (\<lambda>p w. p \<in> set (mem_dirs w)),
     create_dir_all = (\<lambda>p w. (Ok (), w\<lparr>mem_dirs := p # mem_dirs w\<rparr>)),
     timestamp_millis = mem_clock,
     file_create = (\<lambda>p w. (Ok p, if p \<in> set (mem_paths w) then truncate_path p w else w)),
     arrow_writer_new = (\<lambda>f s w. (Ok (length (mem_open w)),
       w\<lparr>mem_open := mem_open w @ [Some (f, [])], mem_paths := f # mem_paths w\<rparr>)),
     string_array = (\<lambda>xs. if text_bytes xs < 2 ^ 31 then Ok (StringArray xs) else Panic),
     record_batch_new = (\<lambda>s cols.
       if batch_fits s cols then Ok \<lparr>batch_schema = s, batch_columns = cols\<rparr>
       else Err ''column lengths or types do not match the schema''),
     writer_write = (\<lambda>h b w. case mem_writer w h of
         None \<Rightarrow> (Err ''writer is closed'', w)
       | Some (p, bs) \<Rightarrow> (Ok (), w\<lparr>mem_open := (mem_open w)[h := Some (p, bs @ [b])]\<rparr>)),
     writer_close = (\<lambda>h w. case mem_writer w h of
         None \<Rightarrow> (Err ''writer is closed'', w)
       | Some (p, bs) \<Rightarrow> (Ok (), w\<lparr>mem_open := (mem_open w)[h := None],
             mem_done := mem_done w @ [(p, bs)]\<rparr>)),
     iter_order = (\<lambda>ks. ks)\<rparr>"

definition memory_view :: "(memory, string, nat) disk_view" where
  "memory_view = \<lparr>open_batches = (\<lambda>w h. map_option snd (mem_writer w h)),
     finished = (\<lambda>w. mset (concat (map snd (mem_done w)))),
     data_paths = (\<lambda>w. set (mem_paths w)), file_path = (\<lambda>p. p)\<rparr>"

lemma memory_api_ok:
  "no_panics memory_api" "batches_ok memory_api" "writers_ok memory_api memory_view"
  "hash_iter_ok (iter_order memory_api)" "calls_succeed memory_api memory_view"
  "string_arrays_ok memory_api"
proof -
  show "no_panics memory_api" "batches_ok memory_api" "hash_iter_ok (iter_order memory_api)"
    "string_arrays_ok memory_api"
    by (auto simp: memory_api_def no_panics_def batches_ok_def hash_iter_ok_def string_arrays_ok_def
        split: option.splits if_splits)
  show "calls_succeed memory_api memory_view"
    by (auto simp: memory_api_def memory_view_def calls_succeed_def split: option.splits)
  show "writers_ok memory_api memory_view"
    unfolding writers_ok_def same_data_def same_but_def
    by (intro conjI allI impI)
      (auto simp: memory_api_def memory_view_def mem_writer_def fun_eq_iff nth_append less_Suc_eq
        split: option.splits if_splits)
qed

end
