(* ===== verification/Parquet_Storage.thy ===== *)
theory Parquet_Storage
  imports Parquet_Api
begin

text \<open>
  Model of \<open>ParquetStorage\<close> (\<open>src/src/storage.rs\<close>, lines 40 to 196): one lazily opened Parquet
  writer per event type, a schema fixed by the first write of the type, and rotation to a new file
  set. The receiver and the outside world are threaded together; an early return keeps what was
  already changed.
\<close>

section \<open>State and operations\<close>

record 'h ParquetStorage =
  base_path :: string
  writers :: "'h hash_map"
  schemas :: "string \<Rightarrow> Schema option"
  file_set_id :: u64

definition ParquetStorage_new :: "string \<Rightarrow> 'h ParquetStorage" where
  "ParquetStorage_new path =
     \<lparr>base_path = path, writers = [], schemas = (\<lambda>et. None), file_set_id = 0\<rparr>"

definition base_fields :: "Field list" where
  "base_fields =
     [Field_new ''event_type'' Utf8 False, Field_new ''block_number'' UInt64 False,
      Field_new ''transaction_hash'' Utf8 False, Field_new ''log_index'' UInt64 False]"

definition schema_names :: "Schema \<Rightarrow> string list" where
  "schema_names schema = map field_name schema"

definition event_schema :: "string list \<Rightarrow> Schema" where
  "event_schema cols = base_fields @ map (\<lambda>name. Field_new name Utf8 False) cols"

definition get_or_create_schema ::
  "string \<Rightarrow> string list \<Rightarrow> ('h ParquetStorage \<times> 'w, Schema) io" where
  "get_or_create_schema et cols = (\<lambda>(st, w).
     case schemas st et of
       Some schema \<Rightarrow>
         if expected_schema_names cols \<noteq> schema_names schema
         then (Err (schema_mismatch et), (st, w))
         else (Ok schema, (st, w))
     | None \<Rightarrow>
         let schema = event_schema cols
         in (Ok schema, (st\<lparr>schemas := (schemas st)(et \<mapsto> schema)\<rparr>, w)))"

definition close_writers ::
  "('w, 'f, 'h) parquet_api \<Rightarrow> ('h ParquetStorage \<times> 'w, unit) io" where
  "close_writers P = (\<lambda>(st, w).
     let drained = hash_entries (iter_order P) (writers st)
     in io_each (\<lambda>(_, writer). io_world (writer_close P writer)) drained (st\<lparr>writers := []\<rparr>, w))"

definition next_file_set :: "('h ParquetStorage \<times> 'w, unit) io" where
  "next_file_set = (\<lambda>(st, w). (Ok (), (st\<lparr>file_set_id := saturating_add (file_set_id st) 1\<rparr>, w)))"

definition rotate_writers ::
  "('w, 'f, 'h) parquet_api \<Rightarrow> ('h ParquetStorage \<times> 'w, unit) io" where
  "rotate_writers P = io_bind (close_writers P) (\<lambda>_. next_file_set)"

text \<open>The directory of an event type is created when it is missing.\<close>

definition ensure_directory ::
  "('w, 'f, 'h) parquet_api \<Rightarrow> string \<Rightarrow> ('h ParquetStorage \<times> 'w, unit) io" where
  "ensure_directory P dir_path = (\<lambda>(st, w).
     if \<not> path_exists P dir_path w then io_world (create_dir_all P dir_path) (st, w)
     else (Ok (), (st, w)))"

definition file_set_name :: "int \<Rightarrow> u64 \<Rightarrow> string" where
  "file_set_name millis set_id = show_int millis @ ''_set'' @ show_u64 set_id @ ''.parquet''"

definition insert_writer :: "string \<Rightarrow> 'h \<Rightarrow> ('h ParquetStorage \<times> 'w, unit) io" where
  "insert_writer et writer = (\<lambda>(st, w).
     (Ok (), (st\<lparr>writers := AList.update et writer (writers st)\<rparr>, w)))"

text \<open>A writer is opened on the first event of a type in the current file set.\<close>

definition ensure_writer ::
  "('w, 'f, 'h) parquet_api \<Rightarrow> string \<Rightarrow> string \<Rightarrow> Schema \<Rightarrow>
     ('h ParquetStorage \<times> 'w, unit) io" where
  "ensure_writer P et dir_path schema = (\<lambda>(st, w).
     if map_of (writers st) et = None then
       let file_path = path_join dir_path (file_set_name (timestamp_millis P w) (file_set_id st))
       in io_bind (io_world (file_create P file_path)) (\<lambda>file.
            io_bind (io_world (arrow_writer_new P file schema)) (\<lambda>writer.
              insert_writer et writer)) (st, w)
     else (Ok (), (st, w)))"

text \<open>
  The one-row arrays of an event: the metadata columns, then a column per value. One value never reaches the
  \<open>2 ^ 31\<close> bytes at which the constructor of a string array would panic (\<open>string_array\<close> of \<open>Parquet_Api\<close>): a log
  of that size does not get through a WebSocket message.
\<close>

definition event_arrays ::
  "string \<Rightarrow> u64 \<Rightarrow> string \<Rightarrow> u64 \<Rightarrow> (string \<times> string) list \<Rightarrow> Array list" where
  "event_arrays et b tx i cols =
     [StringArray [et], UInt64Array [b], StringArray [tx], UInt64Array [i]]
     @ map (\<lambda>(_, v). StringArray [v]) cols"

text \<open>\<open>self.writers.get_mut(event_type).unwrap()\<close>, then the write through the writer.\<close>

definition write_to_writer ::
  "('w, 'f, 'h) parquet_api \<Rightarrow> string \<Rightarrow> RecordBatch \<Rightarrow> ('h ParquetStorage \<times> 'w, unit) io" where
  "write_to_writer P et batch = (\<lambda>(st, w).
     case map_of (writers st) et of
       None \<Rightarrow> (Panic, (st, w))
     | Some writer \<Rightarrow> io_world (writer_write P writer batch) (st, w))"

definition event_dir :: "string \<Rightarrow> string \<Rightarrow> string" where
  "event_dir base et = path_join base et"

definition write_event ::
  "('w, 'f, 'h) parquet_api \<Rightarrow> ('h ParquetStorage \<times> 'w) sink_write" where
  "write_event P et b tx i cols = (\<lambda>(st, w).
     let dir_path = event_dir (base_path st) et
     in io_bind (get_or_create_schema et (map fst cols)) (\<lambda>schema.
          io_bind (ensure_directory P dir_path) (\<lambda>_.
            io_bind (ensure_writer P et dir_path schema) (\<lambda>_.
              io_bind (io_rs (record_batch_new P schema (event_arrays et b tx i cols))) (\<lambda>batch.
                write_to_writer P et batch)))) (st, w))"

text \<open>The field names cached for an event type.\<close>

definition cached_names :: "'h ParquetStorage \<times> 'w \<Rightarrow> string \<Rightarrow> string list option" where
  "cached_names = (\<lambda>(st, w) et. map_option schema_names (schemas st et))"

section \<open>Schemas\<close>

lemma schema_names_event_schema [simp]:
  "schema_names (event_schema cols) = expected_schema_names cols"
  by (simp add: schema_names_def event_schema_def base_fields_def Field_new_def
      expected_schema_names_def metadata_names_def comp_def)

text \<open>Everything but \<open>get_or_create_schema\<close> leaves the receiver's schemas and path alone.\<close>

definition same_schemas :: "'h ParquetStorage \<times> 'w \<Rightarrow> 'h ParquetStorage \<times> 'w \<Rightarrow> bool" where
  "same_schemas s s' \<longleftrightarrow> schemas (fst s') = schemas (fst s) \<and> base_path (fst s') = base_path (fst s)"

lemma same_schemas_refl [simp]: "reflp same_schemas"
  by (simp add: same_schemas_def reflp_def)

lemma same_schemas_trans [simp]: "transp same_schemas"
  by (auto simp: same_schemas_def transp_def)

lemma same_schemas_world [intro, simp]: "io_rel same_schemas (io_world m)"
  by (auto simp: io_rel_def same_schemas_def)

lemma same_schemas_each_close:
  "io_rel same_schemas (io_each (\<lambda>(_, writer). io_world (writer_close P writer)) ws)"
  by (rule io_rel_each) (auto split: prod.splits)

lemma same_schemas_close: "io_rel same_schemas (close_writers P)"
proof (rule io_relI)
  fix s r s'
  assume c: "close_writers P s = (r, s')"
  obtain st w where s: "s = (st, w)" by fastforce
  from c have "same_schemas (st\<lparr>writers := []\<rparr>, w) s'"
    by (auto simp: close_writers_def s Let_def intro: io_relD [OF same_schemas_each_close])
  then show "same_schemas s s'" by (simp add: same_schemas_def s)
qed

lemma same_schemas_rotate: "io_rel same_schemas (rotate_writers P)"
  unfolding rotate_writers_def
  by (intro io_rel_bind same_schemas_trans same_schemas_close)
    (auto simp: io_rel_def same_schemas_def next_file_set_def)

lemma same_schemas_directory: "io_rel same_schemas (ensure_directory P d)"
  by (auto simp: io_rel_def ensure_directory_def same_schemas_def)

lemma same_schemas_insert: "io_rel same_schemas (insert_writer et h)"
  by (auto simp: io_rel_def insert_writer_def same_schemas_def)

lemma same_schemas_writer: "io_rel same_schemas (ensure_writer P et d schema)"
proof -
  have "io_rel same_schemas (io_bind (io_world (file_create P p)) (\<lambda>file.
      io_bind (io_world (arrow_writer_new P file schema)) (insert_writer et)))" for p
    by (intro io_rel_bind same_schemas_trans same_schemas_world same_schemas_insert)
  then show ?thesis
    by (auto simp: io_rel_def ensure_writer_def Let_def same_schemas_def)
qed

lemma same_schemas_write: "io_rel same_schemas (write_to_writer P et batch)"
  by (auto simp: io_rel_def write_to_writer_def same_schemas_def split: option.splits)

lemma same_schemas_rest:
  "io_rel same_schemas (io_bind (ensure_directory P d) (\<lambda>_.
     io_bind (ensure_writer P et d schema) (\<lambda>_.
       io_bind (io_rs r) (\<lambda>batch. write_to_writer P et batch))))"
  by (intro io_rel_bind same_schemas_trans same_schemas_directory same_schemas_writer
      same_schemas_write io_rel_rs same_schemas_refl)

text \<open>The effect of a write on the cached schemas: that of \<open>get_or_create_schema\<close>.\<close>

lemma write_event_schemas:
  assumes "write_event P et b tx i cols (st, w) = (r, (st', w'))"
  shows "(\<exists>schema. schemas st et = Some schema
          \<and> schema_names schema \<noteq> expected_schema_names (map fst cols)
          \<and> r = Err (schema_mismatch et) \<and> st' = st \<and> w' = w)
      \<or> (\<exists>schema. schemas st et = Some schema
          \<and> schema_names schema = expected_schema_names (map fst cols)
          \<and> schemas st' = schemas st)
      \<or> (schemas st et = None
          \<and> schemas st' = (schemas st)(et \<mapsto> event_schema (map fst cols)))"
proof -
  define rest where "rest = (\<lambda>schema. io_bind (ensure_directory P (event_dir (base_path st) et)) (\<lambda>_.
     io_bind (ensure_writer P et (event_dir (base_path st) et) schema) (\<lambda>_.
       io_bind (io_rs (record_batch_new P schema (event_arrays et b tx i cols)))
         (\<lambda>batch. write_to_writer P et batch))))"
  have rest: "schemas st2 = schemas st1" if "rest schema (st1, w1) = (r, (st2, w2))"
    for schema st1 w1 st2 w2
    using io_relD [OF same_schemas_rest, OF that [unfolded rest_def]]
    by (simp add: same_schemas_def)
  have "io_bind (get_or_create_schema et (map fst cols)) rest (st, w) = (r, (st', w'))"
    using assms by (simp add: write_event_def Let_def rest_def)
  then show ?thesis
    by (auto simp: get_or_create_schema_def io_bind_def Let_def dest: rest
        split: option.splits if_splits)
qed

interpretation parquet: caching_sink "write_event P" "rotate_writers P" "close_writers P" cached_names
  for P :: "('w, 'f, 'h) parquet_api"
proof unfold_locales
  fix s s' :: "'h ParquetStorage \<times> 'w" and et b tx i cols r k ns
  obtain st w st' w' where s: "s = (st, w)" and s': "s' = (st', w')" by fastforce
  show "write_event P et b tx i cols s = (Err (schema_mismatch et), s)"
    if "cached_names s et = Some ns" "ns \<noteq> expected_schema_names (map fst cols)"
    using that by (auto simp: cached_names_def s write_event_def Let_def get_or_create_schema_def
        io_bind_def)
  note eff = write_event_schemas [of P et b tx i cols st w r st' w', folded s s']
  show "cached_names s' k = Some ns"
    if "write_event P et b tx i cols s = (r, s')" "cached_names s k = Some ns"
    using eff [OF that(1)] that(2) by (auto simp: cached_names_def s s' split: if_splits)
  show "cached_names s' k = cached_names s k"
    if "write_event P et b tx i cols s = (r, s')" "k \<noteq> et"
    using eff [OF that(1)] that(2) by (auto simp: cached_names_def s s')
  show "cached_names s' et = None
      \<or> cached_names s' et = Some (expected_schema_names (map fst cols))"
    if "write_event P et b tx i cols s = (r, s')" "cached_names s et = None"
    using eff [OF that(1)] that(2) by (auto simp: cached_names_def s s')
  show "cached_names s' et \<noteq> None" if "write_event P et b tx i cols s = (Ok (), s')"
    using write_event_schemas [of P et b tx i cols st w "Ok ()" st' w'] that
    by (auto simp: cached_names_def s s')
  show "cached_names s' = cached_names s" if "rotate_writers P s = (r, s')"
    using io_relD [OF same_schemas_rotate that] by (auto simp: same_schemas_def cached_names_def s s')
  show "cached_names s' = cached_names s" if "close_writers P s = (r, s')"
    using io_relD [OF same_schemas_close that] by (auto simp: same_schemas_def cached_names_def s s')
qed

section \<open>The rows held by the writers\<close>

text \<open>
  The abstract state of the sink: per event type, the batches written to its file of the current
  file set, in order; \<open>pending\<close> gathers them, and \<open>stored\<close> adds what completed files hold.
\<close>

definition open_rows :: "('w, 'f, 'h) disk_view \<Rightarrow> 'w \<Rightarrow> 'h \<Rightarrow> RecordBatch list" where
  "open_rows V w h = (case open_batches V w h of None \<Rightarrow> [] | Some bs \<Rightarrow> bs)"

definition current_rows ::
  "('w, 'f, 'h) disk_view \<Rightarrow> 'h ParquetStorage \<times> 'w \<Rightarrow> string \<Rightarrow> RecordBatch list" where
  "current_rows V = (\<lambda>(st, w) et. case map_of (writers st) et of
      None \<Rightarrow> [] | Some h \<Rightarrow> open_rows V w h)"

definition pending :: "('w, 'f, 'h) disk_view \<Rightarrow> 'h ParquetStorage \<times> 'w \<Rightarrow> RecordBatch multiset" where
  "pending V = (\<lambda>(st, w).
     sum_mset (image_mset (\<lambda>(et, h). mset (open_rows V w h)) (mset (writers st))))"

definition stored :: "('w, 'f, 'h) disk_view \<Rightarrow> 'h ParquetStorage \<times> 'w \<Rightarrow> RecordBatch multiset" where
  "stored V = (\<lambda>(st, w). finished V w + pending V (st, w))"

text \<open>
  Well-formed storage: one writer per event type, all of them open and different, and every cached
  schema is the metadata fields followed by string columns.
\<close>

definition writers_wf :: "('w, 'f, 'h) disk_view \<Rightarrow> 'w \<Rightarrow> 'h hash_map \<Rightarrow> bool" where
  "writers_wf V w ws \<longleftrightarrow>
     hash_wf ws \<and> distinct (map snd ws) \<and> (\<forall>h \<in> snd ` set ws. open_batches V w h \<noteq> None)"

definition storage_wf :: "('w, 'f, 'h) disk_view \<Rightarrow> 'h ParquetStorage \<times> 'w \<Rightarrow> bool" where
  "storage_wf V = (\<lambda>(st, w). writers_wf V w (writers st)
     \<and> (\<forall>et s. schemas st et = Some s \<longrightarrow> (\<exists>cols. s = event_schema cols)))"

text \<open>
  The file names of a file set. Event types are plain path segments, so the path determines the
  event type, the time and the file set. A file set is fresh when no file that holds data has a
  path of a later set, or of the current set and an event type without a writer: \<open>File::create\<close>
  then truncates nothing.
\<close>

definition data_file :: "string \<Rightarrow> string \<Rightarrow> int \<Rightarrow> u64 \<Rightarrow> string" where
  "data_file base et t n = path_join (event_dir base et) (file_set_name t n)"

definition plain_segment :: "string \<Rightarrow> bool" where
  "plain_segment et \<longleftrightarrow> et \<noteq> [] \<and> CHR ''/'' \<notin> set et \<and> et \<noteq> ''.'' \<and> et \<noteq> ''..''"

definition file_set_fresh :: "('w, 'f, 'h) disk_view \<Rightarrow> 'h ParquetStorage \<times> 'w \<Rightarrow> bool" where
  "file_set_fresh V = (\<lambda>(st, w). \<forall>et t n. plain_segment et \<longrightarrow>
     data_file (base_path st) et t n \<in> data_paths V w \<longrightarrow>
       n < file_set_id st \<or> n = file_set_id st \<and> map_of (writers st) et \<noteq> None)"

lemma file_set_name_inject [simp]:
  "file_set_name t n = file_set_name t' n' \<longleftrightarrow> t = t' \<and> n = n'"
proof
  assume e: "file_set_name t n = file_set_name t' n'"
  have no: "CHR ''_'' \<notin> set (show_int k)" for k
    by (rule show_int_no_char) (simp_all add: is_digit_def)
  have "show_int t @ CHR ''_'' # ''set'' @ show_u64 n @ ''.parquet''
      = show_int t' @ CHR ''_'' # ''set'' @ show_u64 n' @ ''.parquet''"
    using e by (simp add: file_set_name_def)
  from split_at_separator [OF no no this] show "t = t' \<and> n = n'" by simp
qed simp

lemma file_set_name_no_slash: "CHR ''/'' \<notin> set (file_set_name t n)"
proof -
  have "CHR ''/'' \<notin> set (show_int t)" by (rule show_int_no_char) (simp_all add: is_digit_def)
  moreover have "CHR ''/'' \<notin> set (show_u64 n)" by (rule show_u64_no_char) (simp add: is_digit_def)
  ultimately show ?thesis by (simp add: file_set_name_def)
qed

lemma plain_segment_ends:
  "plain_segment et \<Longrightarrow> et \<noteq> [] \<and> hd et \<noteq> CHR ''/'' \<and> last et \<noteq> CHR ''/''"
  unfolding plain_segment_def by (metis hd_in_set last_in_set)

lemma data_file_eq:
  assumes "plain_segment et"
  shows "data_file base et t n = path_join base (et @ CHR ''/'' # file_set_name t n)"
proof -
  have "file_set_name t n \<noteq> []" by (simp add: file_set_name_def)
  then have "hd (file_set_name t n) \<noteq> CHR ''/''"
    using file_set_name_no_slash [of t n] by (metis hd_in_set)
  with plain_segment_ends [OF assms] show ?thesis
    by (simp add: data_file_def event_dir_def path_join_def)
qed

lemma data_file_inject:
  assumes "plain_segment et" and "plain_segment et'"
  shows "data_file base et t n = data_file base et' t' n' \<longleftrightarrow> et = et' \<and> t = t' \<and> n = n'"
proof
  assume "data_file base et t n = data_file base et' t' n'"
  then have "et @ CHR ''/'' # file_set_name t n = et' @ CHR ''/'' # file_set_name t' n'"
    using plain_segment_ends [OF assms(1)] plain_segment_ends [OF assms(2)] assms
    by (simp add: data_file_eq path_join_inject)
  from split_at_separator [OF _ _ this] assms show "et = et' \<and> t = t' \<and> n = n'"
    by (simp add: plain_segment_def)
qed simp

text \<open>The one-row batch of an event, written out.\<close>

definition row_batch ::
  "string \<Rightarrow> u64 \<Rightarrow> string \<Rightarrow> u64 \<Rightarrow> (string \<times> string) list \<Rightarrow> RecordBatch" where
  "row_batch et b tx i cols =
     \<lparr>batch_schema =
        [Field_new ''event_type'' Utf8 False, Field_new ''block_number'' UInt64 False,
         Field_new ''transaction_hash'' Utf8 False, Field_new ''log_index'' UInt64 False]
        @ map (\<lambda>(name, _). Field_new name Utf8 False) cols,
      batch_columns =
        [StringArray [et], UInt64Array [b], StringArray [tx], UInt64Array [i]]
        @ map (\<lambda>(_, value). StringArray [value]) cols\<rparr>"

lemma row_batch_eq:
  "row_batch et b tx i cols =
     \<lparr>batch_schema = event_schema (map fst cols), batch_columns = event_arrays et b tx i cols\<rparr>"
  by (simp add: row_batch_def event_schema_def base_fields_def event_arrays_def comp_def case_prod_beta)

lemma not_in_snd_image: "h \<notin> snd ` set xs \<Longrightarrow> (a, h) \<in> set xs \<Longrightarrow> False"
  by force

lemma distinct_snd_same_key:
  "distinct (map snd xs) \<Longrightarrow> (a, h) \<in> set xs \<Longrightarrow> (b, h) \<in> set xs \<Longrightarrow> a = b"
  using inj_onD [of snd "set xs" "(a, h)" "(b, h)"] by (auto simp: distinct_map)

lemma update_new_key: "k \<notin> set (map fst xs) \<Longrightarrow> AList.update k v xs = xs @ [(k, v)]"
  by (induction xs) auto

lemma event_schema_inject [simp]: "event_schema a = event_schema b \<longleftrightarrow> a = b"
  by (metis expected_schema_names_inject schema_names_event_schema)

lemma get_or_create_schema_Ok:
  assumes "get_or_create_schema et cols (st, w) = (Ok schema, (st', w'))"
    and "storage_wf V (st, w)"
  shows "schema = event_schema cols" and "w' = w" and "writers st' = writers st"
    and "base_path st' = base_path st" and "file_set_id st' = file_set_id st"
    and "storage_wf V (st', w')" and "file_set_fresh V (st', w') = file_set_fresh V (st, w)"
  using assms
  by (auto simp: get_or_create_schema_def storage_wf_def file_set_fresh_def Let_def
      split: option.splits if_splits)
    (metis expected_schema_names_inject schema_names_event_schema)+

lemma ensure_directory_Ok:
  assumes e: "ensure_directory P d (st, w) = (r, (st', w'))" and ok: "writers_ok P V"
  shows "st' = st" and "same_data V w w'"
proof -
  show "st' = st" using e by (auto simp: ensure_directory_def split: if_splits)
  from e have "create_dir_all P d w = (r, w') \<or> w' = w"
    by (cases "create_dir_all P d w") (auto simp: ensure_directory_def split: if_splits)
  then show "same_data V w w'"
    using writers_ok_create_dir [OF ok] by (auto simp: same_data_def)
qed

text \<open>Opening a writer: the rows of every event type and the pending rows stay as they are.\<close>

lemma open_writer_rows:
  assumes rows: "\<And>g. open_rows V w' g = (if g = h then [] else open_rows V w g)"
    and fresh: "h \<notin> snd ` set (writers st)" and new: "map_of (writers st) et = None"
    and ws: "writers st' = writers st @ [(et, h)]"
  shows "current_rows V (st', w') = current_rows V (st, w)" and "pending V (st', w') = pending V (st, w)"
proof -
  show "current_rows V (st', w') = current_rows V (st, w)"
    using new fresh
    by (auto simp: fun_eq_iff current_rows_def ws rows map_add_def map_of_append
        split: option.splits dest!: map_of_SomeD dest: not_in_snd_image)
  show "pending V (st', w') = pending V (st, w)"
    using fresh by (auto simp: pending_def ws rows intro!: arg_cong [where f = sum_mset]
        image_mset_cong dest: not_in_snd_image)
qed

lemma open_writer_fresh:
  assumes fresh_set: "file_set_fresh V (st, w)" and plain: "plain_segment et"
    and paths: "data_paths V w' \<subseteq> insert (data_file (base_path st) et t0 (file_set_id st)) (data_paths V w)"
    and st': "st' = st\<lparr>writers := AList.update et h (writers st)\<rparr>"
  shows "file_set_fresh V (st', w')"
  unfolding file_set_fresh_def split_conv
proof (intro allI impI)
  fix et' t n
  assume p: "plain_segment et'" and m: "data_file (base_path st') et' t n \<in> data_paths V w'"
  show "n < file_set_id st' \<or> n = file_set_id st' \<and> map_of (writers st') et' \<noteq> None"
  proof (cases "data_file (base_path st) et' t n \<in> data_paths V w")
    case True
    with fresh_set p show ?thesis by (auto simp: file_set_fresh_def st' update_conv')
  next
    case False
    with m paths have "data_file (base_path st) et' t n = data_file (base_path st) et t0 (file_set_id st)"
      by (auto simp: st')
    with p plain show ?thesis by (simp add: data_file_inject st' update_conv')
  qed
qed

lemma ensure_writer_keeps:
  assumes e: "ensure_writer P et (event_dir (base_path st) et) schema (st, w) = (Ok (), (st', w'))"
    and ok: "writers_ok P V" and wf: "storage_wf V (st, w)"
    and fresh_set: "file_set_fresh V (st, w)" and plain: "plain_segment et"
  shows "storage_wf V (st', w') \<and> current_rows V (st', w') = current_rows V (st, w)
      \<and> pending V (st', w') = pending V (st, w) \<and> finished V w' = finished V w
      \<and> map_of (writers st') et \<noteq> None \<and> file_set_id st' = file_set_id st
      \<and> base_path st' = base_path st \<and> file_set_fresh V (st', w')"
proof (cases "map_of (writers st) et")
  case (Some h)
  with e wf fresh_set show ?thesis by (auto simp: ensure_writer_def)
next
  case None
  define path where "path = data_file (base_path st) et (timestamp_millis P w) (file_set_id st)"
  from e None obtain f w1 h where f: "file_create P path w = (Ok f, w1)"
    and h: "arrow_writer_new P f schema w1 = (Ok h, w')"
    and st': "st' = st\<lparr>writers := AList.update et h (writers st)\<rparr>"
    by (auto simp: ensure_writer_def path_def data_file_def Let_def insert_writer_def
        elim!: io_bind_Ok_elim) (metis prod.collapse)
  have "path \<notin> data_paths V w"
    using fresh_set None plain unfolding file_set_fresh_def path_def by fastforce
  then have w1: "same_data V w w1" by (rule writers_ok_file_create [OF ok f])
  note w' = writers_ok_new [OF ok h] and at = writers_ok_file_path [OF ok f]
  from None have new: "et \<notin> set (map fst (writers st))" by (simp add: map_of_eq_None_iff)
  then have ws: "writers st' = writers st @ [(et, h)]" by (simp add: st' update_new_key)
  from wf w1 w' have fresh: "h \<notin> snd ` set (writers st)"
    by (auto simp: storage_wf_def writers_wf_def same_data_def)
  have rows: "open_rows V w' g = (if g = h then [] else open_rows V w g)" for g
    using w1 w' by (auto simp: open_rows_def same_data_def)
  have "schemas st' = schemas st" by (simp add: st')
  then have "storage_wf V (st', w')"
    using wf new fresh w1 w' unfolding storage_wf_def writers_wf_def same_data_def
    by (auto simp: ws image_iff)
  moreover have "file_set_fresh V (st', w')"
    by (rule open_writer_fresh [OF fresh_set plain _ st']) (use w' w1 at in \<open>auto simp: same_data_def path_def\<close>)
  ultimately show ?thesis
    using w1 w' new open_writer_rows [OF rows fresh None ws] by (simp add: st' update_conv' same_data_def)
qed

lemma ensure_writer_Ok:
  assumes "ensure_writer P et (event_dir (base_path st) et) schema (st, w) = (Ok (), (st', w'))"
    and "writers_ok P V" and "storage_wf V (st, w)"
    and "file_set_fresh V (st, w)" and "plain_segment et"
  shows "storage_wf V (st', w')" and "current_rows V (st', w') = current_rows V (st, w)"
    and "pending V (st', w') = pending V (st, w)" and "finished V w' = finished V w"
    and "map_of (writers st') et \<noteq> None" and "file_set_id st' = file_set_id st"
    and "base_path st' = base_path st" and "file_set_fresh V (st', w')"
  using ensure_writer_keeps [OF assms] by simp_all

text \<open>A batch written through the writer of an event type is a row of that type, and pending.\<close>

lemma written_rows:
  assumes rows: "\<And>g. open_rows V w' g = (if g = h then open_rows V w h @ [batch] else open_rows V w g)"
    and wf: "writers_wf V w (writers st)" and h: "map_of (writers st) et = Some h"
  shows "current_rows V (st, w') = (current_rows V (st, w)) (et := current_rows V (st, w) et @ [batch])"
    and "pending V (st, w') = add_mset batch (pending V (st, w))"
proof -
  from h have mem: "(et, h) \<in> set (writers st)" by (rule map_of_SomeD)
  have others: "g = et" if "(g, h) \<in> set (writers st)" for g
    using wf that mem by (auto simp: writers_wf_def intro: distinct_snd_same_key)
  show "current_rows V (st, w') = (current_rows V (st, w)) (et := current_rows V (st, w) et @ [batch])"
    by (auto simp: fun_eq_iff current_rows_def rows h split: option.split dest!: map_of_SomeD others)
  obtain us vs where split: "writers st = us @ (et, h) # vs"
    using mem by (auto dest: split_list)
  have "h \<notin> snd ` set us" and "h \<notin> snd ` set vs" using wf by (auto simp: writers_wf_def split)
  then have "image_mset (\<lambda>(et, h). mset (open_rows V w' h)) (mset us)
        = image_mset (\<lambda>(et, h). mset (open_rows V w h)) (mset us)"
    and "image_mset (\<lambda>(et, h). mset (open_rows V w' h)) (mset vs)
        = image_mset (\<lambda>(et, h). mset (open_rows V w h)) (mset vs)"
    by (auto simp: rows intro!: image_mset_cong dest: not_in_snd_image)
  then show "pending V (st, w') = add_mset batch (pending V (st, w))"
    by (simp add: pending_def split rows)
qed

lemma write_to_writer_Ok:
  assumes e: "write_to_writer P et batch (st, w) = (Ok (), (st', w'))"
    and ok: "writers_ok P V" and wf: "storage_wf V (st, w)"
  shows "storage_wf V (st', w')" and "st' = st" and "finished V w' = finished V w"
    and "current_rows V (st', w') = (current_rows V (st, w))
          (et := current_rows V (st, w) et @ [batch])"
    and "pending V (st', w') = add_mset batch (pending V (st, w))"
    and "data_paths V w' = data_paths V w"
proof -
  from e obtain h where h: "map_of (writers st) et = Some h"
    and wr: "writer_write P h batch w = (Ok (), w')" and [simp]: "st' = st"
    by (auto simp: write_to_writer_def split: option.splits) (metis prod.collapse)
  from wf have wfs: "writers_wf V w (writers st)" by (simp add: storage_wf_def)
  with h obtain bs where bs: "open_batches V w h = Some bs"
    by (force simp: writers_wf_def dest: map_of_SomeD)
  note w' = writers_ok_write [OF ok bs wr]
  have rows: "open_rows V w' g = (if g = h then open_rows V w h @ [batch] else open_rows V w g)" for g
    using w' by (auto simp: open_rows_def bs)
  show "current_rows V (st', w') = (current_rows V (st, w)) (et := current_rows V (st, w) et @ [batch])"
    and "pending V (st', w') = add_mset batch (pending V (st, w))"
    using written_rows [OF rows wfs h] by simp_all
  show "finished V w' = finished V w" and "data_paths V w' = data_paths V w" using w' by simp_all
  show "storage_wf V (st', w')" using wf w' by (auto simp: storage_wf_def writers_wf_def)
  show "st' = st" by simp
qed

text \<open>A successful write appends one row to the file of its event type and changes nothing else.\<close>

lemma write_event_Ok:
  assumes e: "write_event P et b tx i cols (st, w) = (Ok (), (st', w'))"
    and ok: "writers_ok P V" "batches_ok P" and wf: "storage_wf V (st, w)"
    and fresh: "file_set_fresh V (st, w)" and plain: "plain_segment et"
  shows "storage_wf V (st', w')" and "finished V w' = finished V w"
    and "current_rows V (st', w') = (current_rows V (st, w))
          (et := current_rows V (st, w) et @ [row_batch et b tx i cols])"
    and "pending V (st', w') = add_mset (row_batch et b tx i cols) (pending V (st, w))"
    and "file_set_id st' = file_set_id st" and "file_set_fresh V (st', w')"
proof -
  define d where "d = event_dir (base_path st) et"
  from e obtain schema s1 s2 s3 batch where
    g: "get_or_create_schema et (map fst cols) (st, w) = (Ok schema, s1)"
    and dir: "ensure_directory P d s1 = (Ok (), s2)"
    and wr: "ensure_writer P et d schema s2 = (Ok (), s3)"
    and bt: "record_batch_new P schema (event_arrays et b tx i cols) = Ok batch"
    and out: "write_to_writer P et batch s3 = (Ok (), (st', w'))"
    by (auto simp: write_event_def Let_def d_def elim!: io_bind_Ok_elim)
  obtain st1 w1 where s1: "s1 = (st1, w1)" by fastforce
  note 1 = get_or_create_schema_Ok [OF g [unfolded s1] wf]
  obtain st2 w2 where s2: "s2 = (st2, w2)" by fastforce
  note 2 = ensure_directory_Ok [OF dir [unfolded s1 s2] ok(1)]
  have wf2: "storage_wf V (st2, w2)" and fresh2: "file_set_fresh V (st2, w2)"
    using 1(6,7) 2 fresh by (simp_all add: storage_wf_def writers_wf_def file_set_fresh_def same_data_def)
  obtain st3 w3 where s3: "s3 = (st3, w3)" by fastforce
  have d: "d = event_dir (base_path st2) et" using 1 2 by (simp add: d_def)
  note 3 = ensure_writer_Ok [OF wr [unfolded s2 s3 d] ok(1) wf2 fresh2 plain]
  note 4 = write_to_writer_Ok [OF out [unfolded s3] ok(1) 3(1)]
  have batch: "batch = row_batch et b tx i cols"
    using bt ok(2) 1(1) by (auto simp: batches_ok_def row_batch_eq)
  have rows2: "current_rows V (st2, w2) = current_rows V (st, w)"
    and pend2: "pending V (st2, w2) = pending V (st, w)"
    using 1 2 by (auto simp: current_rows_def pending_def open_rows_def fun_eq_iff same_data_def
        split: option.split)
  show "storage_wf V (st', w')" by (fact 4(1))
  show "finished V w' = finished V w" using 1 2 3 4 by (simp add: same_data_def)
  show "current_rows V (st', w') = (current_rows V (st, w))
      (et := current_rows V (st, w) et @ [row_batch et b tx i cols])"
    using 3 4 rows2 batch by simp
  show "pending V (st', w') = add_mset (row_batch et b tx i cols) (pending V (st, w))"
    using 3 4 pend2 batch by simp
  show "file_set_id st' = file_set_id st" using 1 2 3 4 by simp
  show "file_set_fresh V (st', w')" using 3(8) 4(2,6) by (simp add: file_set_fresh_def)
qed

text \<open>Closing a list of different open writers completes their files.\<close>

lemma close_each_Ok:
  assumes "io_each (\<lambda>(_, writer). io_world (writer_close P writer)) ws (st, w) = (Ok (), (st', w'))"
    and "writers_ok P V" and "writers_wf V w ws"
  shows "st' = st" and "finished V w' =
      finished V w + sum_mset (image_mset (\<lambda>(et, h). mset (open_rows V w h)) (mset ws))"
    and "open_batches V w' h = (if h \<in> snd ` set ws then None else open_batches V w h)"
    and "data_paths V w' = data_paths V w"
proof -
  have "st' = st \<and> finished V w' =
      finished V w + sum_mset (image_mset (\<lambda>(et, h). mset (open_rows V w h)) (mset ws))
      \<and> (\<forall>h. open_batches V w' h = (if h \<in> snd ` set ws then None else open_batches V w h))
      \<and> data_paths V w' = data_paths V w"
    using assms
  proof (induction ws arbitrary: w)
    case Nil
    then show ?case by simp
  next
    case (Cons x ws)
    obtain et h where x: "x = (et, h)" by fastforce
    from Cons.prems(1) obtain w1 where c: "writer_close P h w = (Ok (), w1)"
      and rest: "io_each (\<lambda>(_, writer). io_world (writer_close P writer)) ws (st, w1)
        = (Ok (), (st', w'))"
      by (auto simp: x elim!: io_bind_Ok_elim) (metis prod.collapse)
    from Cons.prems(3) obtain bs where bs: "open_batches V w h = Some bs"
      by (auto simp: x writers_wf_def)
    note w1 = writers_ok_close [OF Cons.prems(2) bs c]
    have fresh: "h \<notin> snd ` set ws" using Cons.prems(3) by (auto simp: x writers_wf_def)
    have "writers_wf V w1 ws" using Cons.prems(3) w1 fresh by (auto simp: x writers_wf_def)
    note IH = Cons.IH [OF rest Cons.prems(2) this]
    have "image_mset (\<lambda>(et, h). mset (open_rows V w1 h)) (mset ws)
        = image_mset (\<lambda>(et, h). mset (open_rows V w h)) (mset ws)"
      using w1 fresh
      by (intro image_mset_cong) (auto simp: open_rows_def dest: not_in_snd_image)
    with IH w1 bs show ?case by (auto simp: x open_rows_def ac_simps)
  qed
  then show "st' = st" and "finished V w' =
      finished V w + sum_mset (image_mset (\<lambda>(et, h). mset (open_rows V w h)) (mset ws))"
    and "open_batches V w' h = (if h \<in> snd ` set ws then None else open_batches V w h)"
    and "data_paths V w' = data_paths V w"
    by simp_all
qed

lemma drained_wf:
  assumes "storage_wf V (st, w)" and "hash_iter_ok (iter_order P)"
  shows "mset (hash_entries (iter_order P) (writers st)) = mset (writers st)"
    and "writers_wf V w (hash_entries (iter_order P) (writers st))"
proof -
  define ws where "ws = hash_entries (iter_order P) (writers st)"
  have perm: "mset ws = mset (writers st)"
    using assms unfolding ws_def
    by (intro hash_entries_permutation) (simp_all add: storage_wf_def writers_wf_def)
  then have same: "set ws = set (writers st)" by (metis set_mset_mset)
  have "mset (map fst ws) = mset (map fst (writers st))"
    and "mset (map snd ws) = mset (map snd (writers st))"
    using perm by simp_all
  note this [THEN mset_eq_imp_distinct_iff]
  with assms have "distinct (map fst ws)" and "distinct (map snd ws)"
    by (simp_all only: storage_wf_def writers_wf_def split_conv)
  with assms same have "writers_wf V w ws" by (simp add: storage_wf_def writers_wf_def)
  with perm show "mset (hash_entries (iter_order P) (writers st)) = mset (writers st)"
    and "writers_wf V w (hash_entries (iter_order P) (writers st))" by (simp_all add: ws_def)
qed

lemma close_writers_Ok:
  assumes c: "close_writers P (st, w) = (Ok (), (st', w'))"
    and ok: "writers_ok P V" "hash_iter_ok (iter_order P)" and wf: "storage_wf V (st, w)"
  shows "st' = st\<lparr>writers := []\<rparr>" and "finished V w' = stored V (st, w)"
    and "storage_wf V (st', w')" and "data_paths V w' = data_paths V w"
proof -
  define ws where "ws = hash_entries (iter_order P) (writers st)"
  have perm: "mset ws = mset (writers st)" and "writers_wf V w ws"
    unfolding ws_def by (rule drained_wf [OF wf ok(2)])+
  moreover from c have "io_each (\<lambda>(_, writer). io_world (writer_close P writer)) ws
      (st\<lparr>writers := []\<rparr>, w) = (Ok (), (st', w'))"
    by (simp add: close_writers_def Let_def ws_def)
  ultimately have "st' = st\<lparr>writers := []\<rparr>" and "data_paths V w' = data_paths V w"
    and "finished V w' =
      finished V w + sum_mset (image_mset (\<lambda>(et, h). mset (open_rows V w h)) (mset ws))"
    using close_each_Ok [OF _ ok(1)] by metis+
  then show "st' = st\<lparr>writers := []\<rparr>" and "finished V w' = stored V (st, w)"
    and "data_paths V w' = data_paths V w"
    by (simp_all only: stored_def pending_def perm split_conv)
  with wf show "storage_wf V (st', w')" by (auto simp: storage_wf_def writers_wf_def)
qed

lemma rotate_writers_Ok:
  assumes c: "rotate_writers P (st, w) = (Ok (), (st', w'))"
    and ok: "writers_ok P V" "hash_iter_ok (iter_order P)" and wf: "storage_wf V (st, w)"
  shows "st' = st\<lparr>writers := [], file_set_id := saturating_add (file_set_id st) 1\<rparr>"
    and "finished V w' = stored V (st, w)" and "storage_wf V (st', w')"
    and "file_set_fresh V (st, w) \<Longrightarrow> unat (file_set_id st) < 2 ^ 64 - 1 \<Longrightarrow>
      file_set_fresh V (st', w')"
proof -
  from c obtain st1 w1 where cl: "close_writers P (st, w) = (Ok (), (st1, w1))"
    and nx: "next_file_set (st1, w1) = (Ok (), (st', w'))"
    by (auto simp: rotate_writers_def elim!: io_bind_Ok_elim)
  note 1 = close_writers_Ok [OF cl ok wf]
  from nx 1 show st': "st' = st\<lparr>writers := [], file_set_id := saturating_add (file_set_id st) 1\<rparr>"
    and "finished V w' = stored V (st, w)"
    by (auto simp: next_file_set_def)
  from nx have "w' = w1" by (simp add: next_file_set_def)
  with 1 st' show "storage_wf V (st', w')" by (auto simp: storage_wf_def writers_wf_def)
  assume fresh: "file_set_fresh V (st, w)" and "unat (file_set_id st) < 2 ^ 64 - 1"
  then have "file_set_id st < saturating_add (file_set_id st) 1"
    by (simp add: word_less_nat_alt u64_simps)
  then have next_id: "n < saturating_add (file_set_id st) 1" if "n \<le> file_set_id st" for n
    using that by (rule le_less_trans [rotated])
  show "file_set_fresh V (st', w')"
    using fresh 1(4) \<open>w' = w1\<close> by (fastforce simp: file_set_fresh_def st' intro!: next_id)
qed

section \<open>Sequences of calls\<close>

fun op_batches :: "sink_op \<Rightarrow> RecordBatch list" where
  "op_batches (Write et b tx i cols) = [row_batch et b tx i cols]"
| "op_batches Rotate = []"
| "op_batches Close = []"

text \<open>The calls before the final close: writes of plainly named event types, and rotations.\<close>

fun streaming_op :: "sink_op \<Rightarrow> bool" where
  "streaming_op (Write et b tx i cols) = plain_segment et"
| "streaming_op Rotate = True"
| "streaming_op Close = False"

fun rotations :: "sink_op list \<Rightarrow> nat" where
  "rotations [] = 0"
| "rotations (Rotate # ops) = Suc (rotations ops)"
| "rotations (_ # ops) = rotations ops"

definition parquet_step ::
  "('w, 'f, 'h) parquet_api \<Rightarrow> sink_op \<Rightarrow> ('h ParquetStorage \<times> 'w, unit) io" where
  "parquet_step P = sink_step (write_event P) (rotate_writers P) (close_writers P)"

lemma stored_no_writers [simp]: "writers st = [] \<Longrightarrow> stored V (st, w) = finished V w"
  by (simp add: stored_def pending_def)

lemma parquet_step_stored:
  assumes e: "parquet_step P op (st, w) = (Ok (), (st', w'))" and op: "streaming_op op"
    and ok: "writers_ok P V" "batches_ok P" "hash_iter_ok (iter_order P)"
    and wf: "storage_wf V (st, w)" "file_set_fresh V (st, w)"
    and bound: "unat (file_set_id st) + rotations [op] < 2 ^ 64"
  shows "storage_wf V (st', w')" and "file_set_fresh V (st', w')"
    and "stored V (st', w') = stored V (st, w) + mset (op_batches op)"
    and "unat (file_set_id st') = unat (file_set_id st) + rotations [op]"
proof -
  have "storage_wf V (st', w') \<and> file_set_fresh V (st', w')
      \<and> stored V (st', w') = stored V (st, w) + mset (op_batches op)
      \<and> unat (file_set_id st') = unat (file_set_id st) + rotations [op]"
  proof (cases op)
    case (Write et b tx i cols)
    with e have "write_event P et b tx i cols (st, w) = (Ok (), (st', w'))"
      by (simp add: parquet_step_def)
    from write_event_Ok [OF this ok(1,2) wf] op Write show ?thesis by (simp add: stored_def)
  next
    case Rotate
    with e have "rotate_writers P (st, w) = (Ok (), (st', w'))" by (simp add: parquet_step_def)
    from rotate_writers_Ok [OF this ok(1,3) wf(1)] Rotate wf(2) bound show ?thesis
      by (simp add: u64_simps)
  next
    case Close
    with op show ?thesis by simp
  qed
  then show "storage_wf V (st', w')" and "file_set_fresh V (st', w')"
    and "stored V (st', w') = stored V (st, w) + mset (op_batches op)"
    and "unat (file_set_id st') = unat (file_set_id st) + rotations [op]" by simp_all
qed

lemma rotations_Cons: "rotations (op # ops) = rotations [op] + rotations ops"
  by (cases op) simp_all

lemma parquet_run_stored:
  assumes "io_each (parquet_step P) ops (st, w) = (Ok (), (st', w'))"
    and ok: "writers_ok P V" "batches_ok P" "hash_iter_ok (iter_order P)"
    and "storage_wf V (st, w)" "file_set_fresh V (st, w)"
    and "\<forall>op \<in> set ops. streaming_op op"
    and "unat (file_set_id st) + rotations ops < 2 ^ 64"
  shows "storage_wf V (st', w')
      \<and> stored V (st', w') = stored V (st, w) + mset (concat (map op_batches ops))"
  using assms(1,5-)
proof (induction ops arbitrary: st w)
  case Nil
  then show ?case by simp
next
  case (Cons op ops)
  from Cons.prems(1) obtain st1 w1 where s: "parquet_step P op (st, w) = (Ok (), (st1, w1))"
    and rest: "io_each (parquet_step P) ops (st1, w1) = (Ok (), (st', w'))"
    by (auto elim!: io_bind_Ok_elim)
  have bound: "unat (file_set_id st) + rotations [op] < 2 ^ 64"
    and op: "streaming_op op" using Cons.prems(4,5) by (simp_all add: rotations_Cons [of op ops])
  note 1 = parquet_step_stored [OF s op ok Cons.prems(2,3) bound]
  have "unat (file_set_id st1) + rotations ops < 2 ^ 64"
    using 1(4) Cons.prems(5) by (simp add: rotations_Cons [of op ops])
  with Cons.IH [OF rest 1(1,2)] Cons.prems(4) 1(3) show ?case by simp
qed

lemma io_each_append:
  "io_each f (xs @ ys) = io_bind (io_each f xs) (\<lambda>_. io_each f ys)"
proof (induction xs)
  case Nil
  then show ?case by (simp add: fun_eq_iff io_bind_def)
next
  case (Cons x xs)
  then show ?case by (auto simp: fun_eq_iff io_bind_def split: prod.split rs.split)
qed

lemma storage_wf_new: "storage_wf V (ParquetStorage_new base, w)"
  by (simp add: storage_wf_def writers_wf_def ParquetStorage_new_def)

section \<open>No panics\<close>

text \<open>A computation is safe in a state when it does not panic there.\<close>

definition io_safe :: "('s, 'a) io \<Rightarrow> 's \<Rightarrow> bool" where
  "io_safe m s \<longleftrightarrow> fst (m s) \<noteq> Panic"


lemma io_safe_simps [simp]:
  "io_safe (io_return a) s" "io_safe (io_fail e) s" "io_safe (io_rs r) s \<longleftrightarrow> r \<noteq> Panic"
  by (simp_all add: io_safe_def)








section \<open>Errors\<close>

lemma event_row_fits: "batch_fits (event_schema (map fst cols)) (event_arrays et b tx i cols)"
  by (auto simp: batch_fits_def event_schema_def event_arrays_def base_fields_def Field_new_def)

text \<open>The errors of a write: a refused schema, or the error of a library call.\<close>

definition io_error :: "('w, 'f, 'h) parquet_api \<Rightarrow> anyhow \<Rightarrow> bool" where
  "io_error P e \<longleftrightarrow> (\<exists>p w. fst (create_dir_all P p w) = Err e) \<or> (\<exists>p w. fst (file_create P p w) = Err e)
     \<or> (\<exists>f s w. fst (arrow_writer_new P f s w) = Err e) \<or> (\<exists>h b w. fst (writer_write P h b w) = Err e)
     \<or> (\<exists>h w. fst (writer_close P h w) = Err e)"

lemma io_bind_Err_elim:
  assumes "io_bind m k s = (Err e, s')"
  obtains "m s = (Err e, s')" | a s1 where "m s = (Ok a, s1)" "k a s1 = (Err e, s')"
  using assms by (auto simp: io_bind_def split: prod.splits rs.splits)

lemma io_world_ErrD: "io_world m (st, w) = (Err e, s') \<Longrightarrow> fst (m w) = Err e"
  by (cases "m w") auto

lemma ensure_writer_Err:
  assumes "ensure_writer P et d schema s = (Err e, s')"
  shows "io_error P e"
proof -
  obtain st w where s: "s = (st, w)" by fastforce
  from assms show ?thesis
    by (auto simp: s ensure_writer_def Let_def insert_writer_def io_error_def
        elim!: io_bind_Err_elim dest!: io_world_ErrD split: if_splits)
qed

lemma write_event_Err:
  assumes e: "write_event P et b tx i cols (st, w) = (Err e, s')"
    and ok: "batches_ok P" and wf: "storage_wf V (st, w)"
  shows "e = schema_mismatch et \<or> io_error P e"
proof -
  define d where "d = event_dir (base_path st) et"
  have bt: "record_batch_new P schema (event_arrays et b tx i cols) \<noteq> Err e"
    if "get_or_create_schema et (map fst cols) (st, w) = (Ok schema, s1)" for schema s1
  proof -
    obtain st1 w1 where s1: "s1 = (st1, w1)" by fastforce
    have "schema = event_schema (map fst cols)"
      by (rule get_or_create_schema_Ok [OF that [unfolded s1] wf])
    with ok event_row_fits [of cols et b tx i] show ?thesis by (fastforce simp: batches_ok_def)
  qed
  have "io_bind (get_or_create_schema et (map fst cols)) (\<lambda>schema.
          io_bind (ensure_directory P d) (\<lambda>_.
            io_bind (ensure_writer P et d schema) (\<lambda>_.
              io_bind (io_rs (record_batch_new P schema (event_arrays et b tx i cols))) (\<lambda>batch.
                write_to_writer P et batch)))) (st, w) = (Err e, s')"
    using e by (simp add: write_event_def Let_def d_def)
  then show ?thesis
  proof (elim io_bind_Err_elim)
    assume "get_or_create_schema et (map fst cols) (st, w) = (Err e, s')"
    then show ?thesis
      by (auto simp: get_or_create_schema_def Let_def split: option.splits if_splits)
  next
    fix s1
    assume "ensure_directory P d s1 = (Err e, s')"
    then show ?thesis
      by (cases s1) (auto simp: ensure_directory_def io_error_def split: if_splits dest!: io_world_ErrD)
  next
    fix schema s1
    assume "ensure_writer P et d schema s1 = (Err e, s')"
    then show ?thesis by (auto dest: ensure_writer_Err)
  next
    fix schema s1 s2
    assume "get_or_create_schema et (map fst cols) (st, w) = (Ok schema, s1)"
      and "io_rs (record_batch_new P schema (event_arrays et b tx i cols)) s2 = (Err e, s')"
    with bt show ?thesis by simp
  next
    fix batch s1
    assume "write_to_writer P et batch s1 = (Err e, s')"
    then show ?thesis
      by (cases s1) (auto simp: write_to_writer_def io_error_def split: option.splits
          dest!: io_world_ErrD)
  qed
qed

text \<open>A close that fails stops at the first writer that fails.\<close>

lemma close_each_Err:
  assumes "io_each (\<lambda>(_, writer). io_world (writer_close P writer)) ws (st, w) = (Err e, (st', w'))"
  obtains pre et h post w1 where "ws = pre @ (et, h) # post"
    and "io_each (\<lambda>(_, writer). io_world (writer_close P writer)) pre (st, w) = (Ok (), (st, w1))"
    and "writer_close P h w1 = (Err e, w')" and "st' = st"
  using assms
proof (induction ws arbitrary: w thesis)
  case Nil
  then show ?case by simp
next
  case (Cons x ws)
  obtain et h where x: "x = (et, h)" by fastforce
  from Cons.prems(2) show ?case
  proof (simp add: x, elim io_bind_Err_elim)
    assume "io_world (writer_close P h) (st, w) = (Err e, st', w')"
    then have "writer_close P h w = (Err e, w')" "st' = st"
      by (cases "writer_close P h w"; simp)+
    then show ?case by (intro Cons.prems(1) [of "[]" et h ws w]) (simp_all add: x)
  next
    fix a s1
    assume c: "io_world (writer_close P h) (st, w) = (Ok a, s1)"
      and rest: "io_each (\<lambda>(_, writer). io_world (writer_close P writer)) ws s1 = (Err e, st', w')"
    from c obtain w1 where s1: "s1 = (st, w1)" "writer_close P h w = (Ok a, w1)"
      by (cases "writer_close P h w") auto
    from Cons.IH [OF _ rest [unfolded s1]] obtain pre et' h' post w2 where
      "ws = pre @ (et', h') # post"
      "io_each (\<lambda>(_, writer). io_world (writer_close P writer)) pre (st, w1) = (Ok (), (st, w2))"
      "writer_close P h' w2 = (Err e, w')" "st' = st" by metis
    then show ?case
      using s1 by (intro Cons.prems(1) [of "x # pre" et' h' post w2]) (simp_all add: x io_bind_def)
  qed
qed

section \<open>Runs without input or output errors\<close>

lemma io_world_succeeds: "fst (m w) = Ok a \<Longrightarrow> \<exists>w'. io_world m (st, w) = (Ok a, (st, w'))"
  by (cases "m w") auto

lemma get_or_create_schema_succeeds:
  assumes "\<forall>ns. cached_names (st, w) et = Some ns \<longrightarrow> ns = expected_schema_names cols"
  shows "\<exists>schema st'. get_or_create_schema et cols (st, w) = (Ok schema, (st', w))"
  using assms
  by (auto simp: get_or_create_schema_def cached_names_def Let_def split: option.split)

lemma ensure_writer_succeeds:
  assumes io: "calls_succeed P V"
  shows "\<exists>st' w'. ensure_writer P et d schema (st, w) = (Ok (), (st', w'))"
proof (cases "map_of (writers st) et")
  case None
  define path where "path = path_join d (file_set_name (timestamp_millis P w) (file_set_id st))"
  from io obtain f w1 where f: "file_create P path w = (Ok f, w1)"
    unfolding calls_succeed_def by (metis prod.collapse)
  from io obtain h w2 where h: "arrow_writer_new P f schema w1 = (Ok h, w2)"
    unfolding calls_succeed_def by (metis prod.collapse)
  show ?thesis
    by (simp add: ensure_writer_def None Let_def path_def [symmetric] io_bind_def f h insert_writer_def)
qed (simp add: ensure_writer_def)

lemma write_to_writer_succeeds:
  assumes io: "calls_succeed P V" and wf: "storage_wf V (st, w)" and h: "map_of (writers st) et = Some h"
  shows "\<exists>w'. write_to_writer P et batch (st, w) = (Ok (), (st, w'))"
proof -
  from h wf have "open_batches V w h \<noteq> None"
    by (force simp: storage_wf_def writers_wf_def dest: map_of_SomeD)
  with io have "fst (writer_write P h batch w) = Ok ()" by (simp add: calls_succeed_def)
  then show ?thesis by (simp add: write_to_writer_def h io_world_succeeds)
qed

lemma write_event_succeeds:
  assumes io: "calls_succeed P V" and ok: "writers_ok P V" "batches_ok P"
    and wf: "storage_wf V (st, w)" and fresh: "file_set_fresh V (st, w)" and plain: "plain_segment et"
    and names: "\<forall>ns. cached_names (st, w) et = Some ns \<longrightarrow> ns = expected_schema_names (map fst cols)"
  shows "\<exists>st' w'. write_event P et b tx i cols (st, w) = (Ok (), (st', w'))"
proof -
  from get_or_create_schema_succeeds [OF names] obtain schema st1 where
    g: "get_or_create_schema et (map fst cols) (st, w) = (Ok schema, (st1, w))" by blast
  note 1 = get_or_create_schema_Ok [OF g wf]
  define d where "d = event_dir (base_path st) et"
  have "\<exists>w2. ensure_directory P d (st1, w) = (Ok (), (st1, w2))"
    using io io_world_succeeds [of "create_dir_all P d" w "()" st1]
    by (auto simp: ensure_directory_def calls_succeed_def)
  then obtain w2 where dir: "ensure_directory P d (st1, w) = (Ok (), (st1, w2))" by blast
  note 2 = ensure_directory_Ok(2) [OF dir ok(1)]
  have wf2: "storage_wf V (st1, w2)" and fresh2: "file_set_fresh V (st1, w2)"
    using 1(6,7) 2 fresh by (simp_all add: storage_wf_def writers_wf_def file_set_fresh_def same_data_def)
  from ensure_writer_succeeds [OF io] obtain st3 w3
    where wr: "ensure_writer P et d schema (st1, w2) = (Ok (), (st3, w3))" by blast
  have d: "d = event_dir (base_path st1) et" using 1 by (simp add: d_def)
  note 3 = ensure_writer_Ok [OF wr [unfolded d] ok(1) wf2 fresh2 plain]
  from 3(5) obtain h where "map_of (writers st3) et = Some h" by blast
  from write_to_writer_succeeds [OF io 3(1) this] obtain w4 where
    out: "write_to_writer P et \<lparr>batch_schema = schema, batch_columns = event_arrays et b tx i cols\<rparr>
      (st3, w3) = (Ok (), (st3, w4))" by blast
  have "record_batch_new P schema (event_arrays et b tx i cols)
      = Ok \<lparr>batch_schema = schema, batch_columns = event_arrays et b tx i cols\<rparr>"
    using ok(2) event_row_fits [of cols et b tx i] 1(1) by (fastforce simp: batches_ok_def)
  with g dir wr out show ?thesis by (simp add: write_event_def Let_def d_def io_bind_def)
qed

lemma close_each_succeeds:
  assumes io: "calls_succeed P V" and ok: "writers_ok P V" and wf: "writers_wf V w ws"
  shows "\<exists>w'. io_each (\<lambda>(_, writer). io_world (writer_close P writer)) ws (st, w) = (Ok (), (st, w'))"
  using wf
proof (induction ws arbitrary: w)
  case Nil
  then show ?case by simp
next
  case (Cons x ws)
  obtain et h where x: "x = (et, h)" by fastforce
  from Cons.prems obtain bs where bs: "open_batches V w h = Some bs"
    by (auto simp: x writers_wf_def)
  from io bs have "fst (writer_close P h w) = Ok ()" by (simp add: calls_succeed_def)
  then obtain w1 where c: "writer_close P h w = (Ok (), w1)" by (metis prod.collapse)
  note w1 = writers_ok_close [OF ok bs c]
  have "writers_wf V w1 ws" using Cons.prems w1 by (auto simp: x writers_wf_def)
  from Cons.IH [OF this] c show ?case by (auto simp: x io_bind_def)
qed

lemma close_writers_succeeds:
  assumes "calls_succeed P V" "writers_ok P V" "hash_iter_ok (iter_order P)" "storage_wf V (st, w)"
  shows "\<exists>st' w'. close_writers P (st, w) = (Ok (), (st', w'))"
proof -
  from close_each_succeeds [OF assms(1,2) drained_wf(2) [OF assms(4,3)], of "st\<lparr>writers := []\<rparr>"]
  show ?thesis by (auto simp only: close_writers_def Let_def split_conv)
qed

text \<open>The columns of every write are the ones \<open>schema\<close> gives its event type.\<close>

fun op_columns_ok :: "(string \<Rightarrow> string list option) \<Rightarrow> sink_op \<Rightarrow> bool" where
  "op_columns_ok schema (Write et b tx i cols) \<longleftrightarrow> schema et = Some (map fst cols)"
| "op_columns_ok schema Rotate = True"
| "op_columns_ok schema Close = True"

lemma parquet_step_succeeds:
  assumes io: "calls_succeed P V" and ok: "writers_ok P V" "batches_ok P" "hash_iter_ok (iter_order P)"
    and wf: "storage_wf V (st, w)" and fresh: "file_set_fresh V (st, w)"
    and agree: "schemas_agree cached_names schema (st, w)"
    and op: "streaming_op op" "op_columns_ok schema op"
  shows "\<exists>st' w'. parquet_step P op (st, w) = (Ok (), (st', w'))
    \<and> schemas_agree cached_names schema (st', w')"
proof (cases op)
  case (Write et b tx i cols)
  have "\<forall>ns. cached_names (st, w) et = Some ns \<longrightarrow> ns = expected_schema_names (map fst cols)"
    using schemas_agreeD [OF agree] op(2) Write by auto
  from write_event_succeeds [OF io ok(1,2) wf fresh _ this, of b tx i] op(1) Write obtain st' w' where
    wr: "write_event P et b tx i cols (st, w) = (Ok (), (st', w'))" by auto
  from parquet.write_agrees [OF wr agree] op(2) Write wr show ?thesis by (simp add: parquet_step_def)
next
  case Rotate
  from close_writers_succeeds [OF io ok(1,3) wf]
  have "\<exists>st' w'. rotate_writers P (st, w) = (Ok (), (st', w'))"
    by (auto simp: rotate_writers_def io_bind_def next_file_set_def)
  with parquet.rotate_agrees [OF _ agree] Rotate show ?thesis by (fastforce simp: parquet_step_def)
next
  case Close
  with op show ?thesis by simp
qed

lemma parquet_run_succeeds:
  assumes io: "calls_succeed P V" and ok: "writers_ok P V" "batches_ok P" "hash_iter_ok (iter_order P)"
    and "storage_wf V (st, w)" and "file_set_fresh V (st, w)"
    and "schemas_agree cached_names schema (st, w)"
    and "\<forall>op \<in> set ops. streaming_op op \<and> op_columns_ok schema op"
    and "unat (file_set_id st) + rotations ops < 2 ^ 64"
  shows "\<exists>s'. io_each (parquet_step P) (ops @ [Close]) (st, w) = (Ok (), s')"
  using assms(5-)
proof (induction ops arbitrary: st w)
  case Nil
  with close_writers_succeeds [OF io ok(1,3)] show ?case
    by (force simp: parquet_step_def io_bind_def)
next
  case (Cons op ops)
  from parquet_step_succeeds [OF io ok Cons.prems(1-3), of op] Cons.prems(4) obtain st1 w1 where
    s: "parquet_step P op (st, w) = (Ok (), (st1, w1))"
    and agree: "schemas_agree cached_names schema (st1, w1)" by auto
  have bound: "unat (file_set_id st) + rotations [op] < 2 ^ 64"
    and op: "streaming_op op" using Cons.prems(4,5) by (simp_all add: rotations_Cons [of op ops])
  note 1 = parquet_step_stored [OF s op ok Cons.prems(1,2) bound]
  have "unat (file_set_id st1) + rotations ops < 2 ^ 64"
    using 1(4) Cons.prems(5) by (simp add: rotations_Cons [of op ops])
  from Cons.IH [OF 1(1,2) agree _ this] Cons.prems(4) s show ?case by (auto simp: io_bind_def)
qed

lemma schemas_agree_new: "schemas_agree cached_names schema (ParquetStorage_new base, w)"
  by (simp add: schemas_agree_def cached_names_def ParquetStorage_new_def)

section \<open>Properties\<close>

text \<open>A sink on the in-memory instance, and one event for it.\<close>

definition sample_sink :: "nat ParquetStorage \<times> memory" where
  "sample_sink = (ParquetStorage_new ''data'', memory_start)"

definition sample_write :: "(nat ParquetStorage \<times> memory) \<Rightarrow> unit rs \<times> (nat ParquetStorage \<times> memory)" where
  "sample_write = write_event memory_api ''OrderFilled'' 7 ''0xab'' 3 [(''fee'', ''12'')]"

lemma sample_sink_ok [simp]:
  "storage_wf memory_view sample_sink" "file_set_fresh memory_view sample_sink"
  by (simp_all add: sample_sink_def storage_wf_new file_set_fresh_def memory_view_def
      memory_start_def)

lemmas memory_eval =
  memory_api_def memory_start_def mem_writer_def truncate_path_def ParquetStorage_new_def Let_def
  io_bind_def write_event_def get_or_create_schema_def ensure_directory_def ensure_writer_def
  insert_writer_def write_to_writer_def event_schema_def base_fields_def Field_new_def
  event_arrays_def batch_fits_def

lemma sample_write_Ok: "fst (sample_write sample_sink) = Ok ()"
  by (simp add: sample_write_def sample_sink_def memory_eval)

lemma sample_write_after:
  obtains st1 w1 where "sample_write sample_sink = (Ok (), (st1, w1))"
    and "write_event memory_api ''OrderFilled'' 7 ''0xab'' 3 [(''fee'', ''12'')]
           (ParquetStorage_new ''data'', memory_start) = (Ok (), (st1, w1))"
  using sample_write_Ok
  by (cases "sample_write sample_sink") (auto simp: sample_write_def sample_sink_def)

text \<open>C4. A successful write of an event appends exactly one row, with the metadata columns and the
  event's values, to the file of its event type in the current file set: the rows of the other types
  and the completed files are unchanged, no file that holds data is truncated, and the storage stays
  well formed. The directory is to hold no file of this or a later set but those the storage has open.\<close>

theorem write_event_appends_row:
  assumes "write_event P et b tx i cols (st, w) = (Ok (), (st', w'))"
    and "writers_ok P V" "batches_ok P" and "plain_segment et"
    and "storage_wf V (st, w)" "file_set_fresh V (st, w)"
  shows "current_rows V (st', w') = (current_rows V (st, w))
          (et := current_rows V (st, w) et @ [row_batch et b tx i cols])
      \<and> finished V w' = finished V w \<and> file_set_id st' = file_set_id st
      \<and> storage_wf V (st', w') \<and> file_set_fresh V (st', w')"
  using write_event_Ok [OF assms(1-3,5,6,4)] by blast

theorem write_event_appends_row_witness:
  "current_rows memory_view (snd (sample_write sample_sink)) ''OrderFilled''
     = [row_batch ''OrderFilled'' 7 ''0xab'' 3 [(''fee'', ''12'')]]"
proof -
  obtain st1 w1 where s: "sample_write sample_sink = (Ok (), (st1, w1))"
    and w: "write_event memory_api ''OrderFilled'' 7 ''0xab'' 3 [(''fee'', ''12'')]
      (ParquetStorage_new ''data'', memory_start) = (Ok (), (st1, w1))"
    by (rule sample_write_after)
  from write_event_appends_row [OF w memory_api_ok(3,2)] sample_sink_ok s
  show ?thesis
    by (simp add: sample_sink_def plain_segment_def) (simp add: current_rows_def ParquetStorage_new_def)
qed

text \<open>C10. Nothing written is lost: after any sequence of successful writes and rotations on a new
  storage, in a directory without files of earlier file sets, ended by a successful close, the completed files
  hold one row per write and nothing else beside what was there before, and no writer is left.\<close>

theorem parquet_run_loses_nothing:
  fixes P :: "('w, 'f, 'h) parquet_api"
  assumes "io_each (parquet_step P) (ops @ [Close]) (ParquetStorage_new base, w) = (Ok (), (st', w'))"
    and "writers_ok P V" "batches_ok P" "hash_iter_ok (iter_order P)"
    and "file_set_fresh V (ParquetStorage_new base, w)"
    and "\<forall>op \<in> set ops. streaming_op op" and "rotations ops < 2 ^ 64"
  shows "finished V w' = finished V w + mset (concat (map op_batches ops)) \<and> writers st' = []"
proof -
  obtain st0 :: "'h ParquetStorage" where st0: "st0 = ParquetStorage_new base" by simp
  have id0: "unat (file_set_id st0) = 0" by (simp add: st0 ParquetStorage_new_def)
  from assms(1) st0 obtain st1 w1 where run: "io_each (parquet_step P) ops (st0, w) = (Ok (), (st1, w1))"
    and close: "close_writers P (st1, w1) = (Ok (), (st', w'))"
    by (auto simp: io_each_append parquet_step_def elim!: io_bind_Ok_elim)
  have "storage_wf V (st0, w)" by (simp add: st0 storage_wf_new)
  from parquet_run_stored [OF run assms(2-4) this] assms(5-7) id0 st0
  have 1: "storage_wf V (st1, w1)"
    and "stored V (st1, w1) = stored V (st0, w) + mset (concat (map op_batches ops))"
    by simp_all
  moreover have "stored V (st0, w) = finished V w"
    by (simp add: st0 ParquetStorage_new_def)
  ultimately show ?thesis using close_writers_Ok [OF close assms(2,4) 1] by simp
qed

definition sample_ops :: "sink_op list" where
  "sample_ops =
     [Write ''OrderFilled'' 7 ''0xab'' 3 [(''fee'', ''12'')], Rotate,
      Write ''OrderFilled'' 9 ''0xcd'' 0 [(''fee'', ''13'')],
      Write ''OrderCancelled'' 9 ''0xcd'' 1 [(''order_hash'', ''0x01'')]]"

definition sample_columns :: "string \<Rightarrow> string list option" where
  "sample_columns = [''OrderFilled'' \<mapsto> [''fee''], ''OrderCancelled'' \<mapsto> [''order_hash'']]"

lemma sample_ops_ok:
  "\<forall>op \<in> set sample_ops. streaming_op op" "rotations sample_ops = 1"
  "\<forall>op \<in> set sample_ops. op_columns_ok sample_columns op"
  by (simp_all add: sample_ops_def sample_columns_def plain_segment_def)

lemma sample_run_Ok:
  "\<exists>s'. io_each (parquet_step memory_api) (sample_ops @ [Close]) sample_sink = (Ok (), s')"
  unfolding sample_sink_def
  by (rule parquet_run_succeeds [OF memory_api_ok(5,3,2,4) _ _ schemas_agree_new])
    (use sample_sink_ok sample_ops_ok in \<open>auto simp: sample_sink_def ParquetStorage_new_def\<close>)

theorem parquet_run_loses_nothing_witness:
  "\<exists>s'. io_each (parquet_step memory_api) (sample_ops @ [Close]) sample_sink = (Ok (), s')
     \<and> finished memory_view (snd s')
     = {#row_batch ''OrderFilled'' 7 ''0xab'' 3 [(''fee'', ''12'')],
         row_batch ''OrderFilled'' 9 ''0xcd'' 0 [(''fee'', ''13'')],
         row_batch ''OrderCancelled'' 9 ''0xcd'' 1 [(''order_hash'', ''0x01'')]#}"
proof -
  obtain st1 w1 where run: "io_each (parquet_step memory_api) (sample_ops @ [Close])
      (ParquetStorage_new ''data'', memory_start) = (Ok (), (st1, w1))"
    using sample_run_Ok by (force simp: sample_sink_def)
  from parquet_run_loses_nothing [OF run memory_api_ok(3,2,4)] sample_sink_ok sample_ops_ok
  have "finished memory_view w1 = finished memory_view memory_start
      + mset (concat (map op_batches sample_ops))"
    by (simp add: sample_sink_def)
  with run show ?thesis
    by (simp add: sample_sink_def sample_ops_def memory_view_def memory_start_def)
qed

text \<open>When no library call fails, a run succeeds: any sequence of writes and rotations on a new
  storage, in which each event type is written with the columns of one schema, followed by a close,
  returns \<open>Ok\<close>.\<close>

lemma parquet_run_returns_ok:
  assumes "calls_succeed P V" "writers_ok P V" "batches_ok P" "hash_iter_ok (iter_order P)"
    and "file_set_fresh V (ParquetStorage_new base, w)"
    and "\<forall>op \<in> set ops. streaming_op op \<and> op_columns_ok schema op" and "rotations ops < 2 ^ 64"
  shows "fst (io_each (parquet_step P) (ops @ [Close]) (ParquetStorage_new base, w)) = Ok ()"
proof -
  have "unat (file_set_id (ParquetStorage_new base :: 'c ParquetStorage)) + rotations ops < 2 ^ 64"
    using assms(7) by (simp add: ParquetStorage_new_def)
  from parquet_run_succeeds [OF assms(1-4) storage_wf_new assms(5) schemas_agree_new assms(6) this]
  show ?thesis by fastforce
qed



text \<open>C28. The first successful write of an event type fixes its columns: every later successful
  write of that type, after any other calls and whatever they returned, has the same column names in
  the same order.\<close>

theorem parquet_one_schema_per_type:
  assumes "write_event P et b tx i cols s = (Ok (), s1)"
    and "write_event P et b' tx' i' cols'
           (sink_after (write_event P) (rotate_writers P) (close_writers P) ops s1) = (Ok (), s2)"
  shows "map fst cols' = map fst cols"
  using assms by (rule parquet.one_schema_per_type)

theorem parquet_one_schema_per_type_witness:
  "\<exists>s1 s2. sample_write sample_sink = (Ok (), s1) \<and> sample_write s1 = (Ok (), s2)
     \<and> map fst [(''fee'', ''12'')] = map fst [(''fee'', ''12'')]"
proof -
  obtain s1 where s1: "sample_write sample_sink = (Ok (), s1)"
    using sample_write_Ok by (cases "sample_write sample_sink") simp
  have "\<exists>s2. sample_write s1 = (Ok (), s2)"
    using s1 by (auto simp: sample_write_def sample_sink_def memory_eval schema_names_def
        expected_schema_names_def metadata_names_def)
  then obtain s2 where s2: "sample_write s1 = (Ok (), s2)" by blast
  from parquet_one_schema_per_type [OF s1 [unfolded sample_write_def], of 7 "''0xab''" 3 _ "[]" s2] s1 s2
  show ?thesis by (simp add: sample_write_def)
qed

text \<open>C29. A write fails with the mismatch error or with the error of a file system or writer call,
  never because its row does not fit its schema; it fails with the mismatch error, and changes
  nothing, when the schema cached for its event type has other columns.\<close>

theorem write_event_failure:
  assumes "batches_ok P" and "storage_wf V (st, w)"
    and "write_event P et b tx i cols (st, w) = (Err e, s')"
  shows "(e = schema_mismatch et \<or> io_error P e)
      \<and> (\<forall>ns. cached_names (st, w) et = Some ns \<and> ns \<noteq> expected_schema_names (map fst cols)
           \<longrightarrow> e = schema_mismatch et \<and> s' = (st, w))"
  using write_event_Err [OF assms(3,1,2)] parquet.write_mismatch [of "(st, w)" et _ cols P b tx i]
    assms(3)
  by auto

definition other_columns_write :: "(nat ParquetStorage \<times> memory) \<Rightarrow> unit rs \<times> (nat ParquetStorage \<times> memory)" where
  "other_columns_write = write_event memory_api ''OrderFilled'' 8 ''0xab'' 4 [(''maker'', ''m'')]"

theorem write_event_failure_witness:
  "\<exists>s1. sample_write sample_sink = (Ok (), s1)
     \<and> other_columns_write s1 = (Err (schema_mismatch ''OrderFilled''), s1)"
proof -
  obtain st1 w1 where s1: "sample_write sample_sink = (Ok (), (st1, w1))"
    and w1: "write_event memory_api ''OrderFilled'' 7 ''0xab'' 3 [(''fee'', ''12'')]
      (ParquetStorage_new ''data'', memory_start) = (Ok (), (st1, w1))"
    by (rule sample_write_after)
  have names: "cached_names (st1, w1) ''OrderFilled'' = Some (expected_schema_names [''fee''])"
    using parquet.write_ok_schema [OF w1] by simp
  have wf: "storage_wf memory_view (st1, w1)"
    using write_event_Ok(1) [OF w1 memory_api_ok(3,2)] sample_sink_ok
    by (simp add: sample_sink_def plain_segment_def)
  have r: "other_columns_write (st1, w1) = (Err (schema_mismatch ''OrderFilled''), (st1, w1))"
    unfolding other_columns_write_def
    by (rule parquet.write_mismatch [OF names]) (simp add: expected_schema_names_def)
  from write_event_failure [OF memory_api_ok(2) wf r [unfolded other_columns_write_def]] names r s1
  show ?thesis by blast
qed

text \<open>C22. A successful rotation completes every open file of the set with all its rows, leaves no
  writer, keeps the cached schemas and moves to the next file set number (which stops growing at the
  largest \<open>u64\<close>); below that bound the files of the new set are new files.\<close>

theorem rotate_starts_file_set:
  assumes "rotate_writers P (st, w) = (Ok (), (st', w'))"
    and "writers_ok P V" "hash_iter_ok (iter_order P)" "storage_wf V (st, w)"
  shows "finished V w' = stored V (st, w) \<and> writers st' = [] \<and> schemas st' = schemas st
      \<and> unat (file_set_id st') = min (unat (file_set_id st) + 1) (2 ^ 64 - 1)
      \<and> (file_set_fresh V (st, w) \<and> unat (file_set_id st) < 2 ^ 64 - 1 \<longrightarrow> file_set_fresh V (st', w'))"
  using rotate_writers_Ok [OF assms] by (auto simp: u64_simps)

theorem rotate_starts_file_set_witness:
  "\<exists>s. rotate_writers memory_api sample_sink = (Ok (), s)
     \<and> file_set_id (fst s) = 1 \<and> file_set_fresh memory_view s"
proof -
  have "\<exists>st' w'. rotate_writers memory_api (ParquetStorage_new ''data'', memory_start) = (Ok (), (st', w'))"
    using close_writers_succeeds [OF memory_api_ok(5,3,4), of "ParquetStorage_new ''data''" memory_start]
    by (auto simp: rotate_writers_def io_bind_def next_file_set_def storage_wf_new)
  then obtain st' w' where
    r: "rotate_writers memory_api (ParquetStorage_new ''data'', memory_start) = (Ok (), (st', w'))" by blast
  from rotate_starts_file_set [OF r memory_api_ok(3,4) storage_wf_new]
  have "unat (file_set_id st') = 1" and "file_set_fresh memory_view (st', w')"
    using sample_sink_ok(2) by (simp_all add: ParquetStorage_new_def sample_sink_def)
  with r show ?thesis by (auto simp: sample_sink_def word_unat_eq_iff)
qed

text \<open>C36. A close stops at the first writer that fails and returns its error. The writers before it
  are completed; the map of writers is empty all the same, and those after it are still open, their
  rows in no completed file, with nothing left in the storage that refers to them.\<close>

theorem close_error_abandons_writers:
  assumes "close_writers P (st, w) = (Err e, (st', w'))"
    and "writers_ok P V" "hash_iter_ok (iter_order P)" "storage_wf V (st, w)"
  shows "\<exists>pre et h post. hash_entries (iter_order P) (writers st) = pre @ (et, h) # post
      \<and> finished V w' = finished V w
          + sum_mset (image_mset (\<lambda>(et, h). mset (open_rows V w h)) (mset pre))
      \<and> (\<forall>(et', h') \<in> set post. open_batches V w' h' = open_batches V w h' \<and> open_batches V w' h' \<noteq> None)
      \<and> writers st' = [] \<and> file_set_id st' = file_set_id st"
proof -
  define ws where "ws = hash_entries (iter_order P) (writers st)"
  have wf: "writers_wf V w ws" unfolding ws_def by (rule drained_wf(2) [OF assms(4,3)])
  from assms(1) have "io_each (\<lambda>(_, writer). io_world (writer_close P writer)) ws
      (st\<lparr>writers := []\<rparr>, w) = (Err e, (st', w'))"
    by (simp add: close_writers_def Let_def ws_def)
  from close_each_Err [OF this] obtain pre et h post w1 where ws: "ws = pre @ (et, h) # post"
    and pre: "io_each (\<lambda>(_, writer). io_world (writer_close P writer)) pre (st\<lparr>writers := []\<rparr>, w)
      = (Ok (), (st\<lparr>writers := []\<rparr>, w1))"
    and fail: "writer_close P h w1 = (Err e, w')" and st': "st' = st\<lparr>writers := []\<rparr>" by metis
  have "writers_wf V w pre" using wf by (auto simp: ws writers_wf_def)
  note 1 = close_each_Ok [OF pre assms(2) this]
  note 2 = writers_ok_close_Err [OF assms(2) fail, unfolded same_but_def]
  have "open_batches V w' (snd p) = open_batches V w (snd p) \<and> open_batches V w' (snd p) \<noteq> None"
    if "p \<in> set post" for p
  proof -
    have "snd p \<noteq> h" "snd p \<notin> snd ` set pre" "open_batches V w (snd p) \<noteq> None"
      using wf that imageI [OF that, of snd] by (auto simp: ws writers_wf_def)
    with 1(3) 2 show ?thesis by simp
  qed
  then have "\<forall>p \<in> set post. open_batches V w' (snd p) = open_batches V w (snd p)
      \<and> open_batches V w' (snd p) \<noteq> None" by blast
  with 1(2) 2 show ?thesis
    unfolding ws_def [symmetric] ws st' split_def
    by - (rule exI [of _ pre], rule exI [of _ et], rule exI [of _ h], rule exI [of _ post], auto)
qed

text \<open>The in-memory instance with writers that fail to close.\<close>

definition full_disk_api :: "(memory, string, nat) parquet_api" where
  "full_disk_api = memory_api\<lparr>writer_close := \<lambda>h w. (Err ''no space left on device'', w)\<rparr>"

lemma full_disk_api_ok:
  "writers_ok full_disk_api memory_view" "batches_ok full_disk_api"
  "hash_iter_ok (iter_order full_disk_api)"
proof -
  show "batches_ok full_disk_api" "hash_iter_ok (iter_order full_disk_api)"
    using memory_api_ok(2,4) by (simp_all add: full_disk_api_def batches_ok_def)
  show "writers_ok full_disk_api memory_view"
  proof -
    have same: "create_dir_all full_disk_api = create_dir_all memory_api"
      "file_create full_disk_api = file_create memory_api"
      "arrow_writer_new full_disk_api = arrow_writer_new memory_api"
      "writer_write full_disk_api = writer_write memory_api"
      and fails: "writer_close full_disk_api = (\<lambda>h w. (Err ''no space left on device'', w))"
      by (simp_all add: full_disk_api_def)
    show ?thesis
      using memory_api_ok(3) unfolding writers_ok_def same
      by (elim conjE, intro conjI) (assumption | ((erule thin_rl)+, simp add: fails same_but_def))+
  qed
qed

theorem close_error_abandons_writers_witness:
  "\<exists>st w s. sample_write sample_sink = (Ok (), (st, w))
     \<and> close_writers full_disk_api (st, w) = (Err ''no space left on device'', s)
     \<and> writers (fst s) = [] \<and> finished memory_view (snd s) = {#}
     \<and> stored memory_view (st, w) \<noteq> {#}"
proof -
  obtain st1 w1 where s: "sample_write sample_sink = (Ok (), (st1, w1))"
    and wr: "write_event memory_api ''OrderFilled'' 7 ''0xab'' 3 [(''fee'', ''12'')]
      (ParquetStorage_new ''data'', memory_start) = (Ok (), (st1, w1))"
    by (rule sample_write_after)
  note 1 = write_event_Ok [OF wr memory_api_ok(3,2)]
  have wf: "storage_wf memory_view (st1, w1)" and fin: "finished memory_view w1 = {#}"
    and pend: "pending memory_view (st1, w1) \<noteq> {#}"
    using 1(1,2,4) sample_sink_ok
    by (simp_all add: sample_sink_def plain_segment_def memory_view_def memory_start_def)
  have "writers st1 = [(''OrderFilled'', 0)]"
    using wr by (auto simp: memory_eval)
  then have "close_writers full_disk_api (st1, w1)
      = (Err ''no space left on device'', (st1\<lparr>writers := []\<rparr>, w1))"
    by (simp add: close_writers_def full_disk_api_def memory_api_def hash_entries_def
        List.map_filter_def io_bind_def)
  from close_error_abandons_writers [OF this full_disk_api_ok(1,3) wf] this s fin pend show ?thesis
    by (intro exI [of _ st1] exI [of _ w1] exI [of _ "(st1\<lparr>writers := []\<rparr>, w1)"])
      (auto simp: stored_def)
qed

section \<open>Decoded events into the Parquet sink\<close>

interpretation parquet_ingest: ingest "write_event P" "rotate_writers P" "close_writers P"
    cached_names "decode_log A" column_schema
  for P :: "('w, 'f, 'h) parquet_api" and A :: alloy
  by unfold_locales

end
