(* ===== verification/Kafka_Storage.thy ===== *)
theory Kafka_Storage
  imports Event_Sink
begin

text \<open>
  Model of \<open>KafkaStorage\<close> (\<open>src/src/storage.rs\<close>, lines 198 to 327, built with the \<open>kafka\<close> feature):
  every event is one Avro message on the topic of its event type. The JSON serializer, the Avro
  parser, records and encoder and the producer are parameters.
\<close>

section \<open>The libraries\<close>

text \<open>
  An Avro schema is read only through its variant and, for a record, its fields in order. A Rust
  \<open>i64\<close> put into a record is an Avro \<open>long\<close>.
\<close>

datatype AvroSchema = Avro_Record string "(string \<times> string) list" | Avro_Other string

datatype AvroValue = Avro_String string | Avro_Long i64

record ('w, 'p, 'rec) kafka_api =
  json_to_string :: "json \<Rightarrow> string"
  parse_str :: "string \<Rightarrow> AvroSchema rs"
  record_new :: "AvroSchema \<Rightarrow> 'rec option"
  record_put :: "string \<Rightarrow> AvroValue \<Rightarrow> 'rec \<Rightarrow> 'rec"
  avro_encode :: "AvroSchema \<Rightarrow> 'rec \<Rightarrow> bytes rs"
  create_producer :: "(string \<times> string) list \<Rightarrow> 'p rs"
  send_record :: "'p \<Rightarrow> string \<Rightarrow> bytes \<Rightarrow> string \<Rightarrow> ('w, unit) io"

section \<open>State and operations\<close>

record 'p KafkaStorage =
  producer :: 'p
  topic_prefix :: string
  avro_schemas :: "string \<Rightarrow> AvroSchema option"

definition KafkaStorage_new ::
  "('w, 'p, 'rec) kafka_api \<Rightarrow> string \<Rightarrow> string \<Rightarrow> 'p KafkaStorage rs" where
  "KafkaStorage_new K brokers prefix =
     map_rs_value (\<lambda>p. \<lparr>producer = p, topic_prefix = prefix, avro_schemas = (\<lambda>et. None)\<rparr>)
       (create_producer K [(''bootstrap.servers'', brokers), (''message.timeout.ms'', ''5000'')])"

fun schema_field_names :: "AvroSchema \<Rightarrow> string list" where
  "schema_field_names (Avro_Record name fs) = map fst fs"
| "schema_field_names (Avro_Other name) = []"

definition avro_fields :: "string list \<Rightarrow> (string \<times> string) list" where
  "avro_fields cols =
     [(''event_type'', ''string''), (''block_number'', ''long''),
      (''transaction_hash'', ''string''), (''log_index'', ''long'')]
     @ map (\<lambda>name. (name, ''string'')) cols"

definition field_json :: "string \<times> string \<Rightarrow> json" where
  "field_json = (\<lambda>(name, ty). JObject [(''name'', JString name), (''type'', JString ty)])"

definition schema_json :: "string \<Rightarrow> (string \<times> string) list \<Rightarrow> json" where
  "schema_json et fs =
     JObject [(''type'', JString ''record''), (''name'', JString et),
       (''fields'', JArray (map field_json fs))]"

definition kafka_get_or_create_schema ::
  "('w, 'p, 'rec) kafka_api \<Rightarrow> string \<Rightarrow> string list \<Rightarrow> ('p KafkaStorage \<times> 'w, AvroSchema) io" where
  "kafka_get_or_create_schema K et cols = (\<lambda>(st, w).
     case avro_schemas st et of
       Some schema \<Rightarrow>
         if expected_schema_names cols \<noteq> schema_field_names schema
         then (Err (schema_mismatch et), (st, w))
         else (Ok schema, (st, w))
     | None \<Rightarrow>
         (case parse_str K (json_to_string K (schema_json et (avro_fields cols))) of
            Ok schema \<Rightarrow> (Ok schema, (st\<lparr>avro_schemas := (avro_schemas st)(et \<mapsto> schema)\<rparr>, w))
          | Err e \<Rightarrow> (Err e, (st, w))
          | Panic \<Rightarrow> (Panic, (st, w))))"

definition topic_name :: "'p KafkaStorage \<Rightarrow> string \<Rightarrow> string" where
  "topic_name st et = topic_prefix st @ ''.'' @ et"

text \<open>\<open>block_number as i64\<close> keeps the bits.\<close>

definition as_i64 :: "u64 \<Rightarrow> i64" where
  "as_i64 w = ucast w"

definition put_columns ::
  "('w, 'p, 'rec) kafka_api \<Rightarrow> (string \<times> string) list \<Rightarrow> 'rec \<Rightarrow> 'rec" where
  "put_columns K cols r = foldl (\<lambda>r (name, v). record_put K name (Avro_String v) r) r cols"

definition fill_record ::
  "('w, 'p, 'rec) kafka_api \<Rightarrow> string \<Rightarrow> u64 \<Rightarrow> string \<Rightarrow> u64 \<Rightarrow> (string \<times> string) list \<Rightarrow>
     'rec \<Rightarrow> 'rec" where
  "fill_record K et b tx i cols r =
     (let r = record_put K ''event_type'' (Avro_String et) r;
          r = record_put K ''block_number'' (Avro_Long (as_i64 b)) r;
          r = record_put K ''transaction_hash'' (Avro_String tx) r;
          r = record_put K ''log_index'' (Avro_Long (as_i64 i)) r
      in put_columns K cols r)"

definition no_record :: "string \<Rightarrow> anyhow" where
  "no_record et =
     ''failed to build avro record for event type '' @ [CHR 0x27] @ et @ [CHR 0x27]"

definition build_record ::
  "('w, 'p, 'rec) kafka_api \<Rightarrow> AvroSchema \<Rightarrow> string \<Rightarrow> u64 \<Rightarrow> string \<Rightarrow> u64 \<Rightarrow>
     (string \<times> string) list \<Rightarrow> 'rec rs" where
  "build_record K schema et b tx i cols = (case record_new K schema of
      None \<Rightarrow> Err (no_record et)
    | Some r \<Rightarrow> Ok (fill_record K et b tx i cols r))"

definition kafka_send ::
  "('w, 'p, 'rec) kafka_api \<Rightarrow> string \<Rightarrow> bytes \<Rightarrow> string \<Rightarrow> ('p KafkaStorage \<times> 'w, unit) io" where
  "kafka_send K et payload key = (\<lambda>(st, w).
     io_world (send_record K (producer st) (topic_name st et) payload key) (st, w))"

definition kafka_write_event ::
  "('w, 'p, 'rec) kafka_api \<Rightarrow> ('p KafkaStorage \<times> 'w) sink_write" where
  "kafka_write_event K et b tx i cols =
     io_bind (kafka_get_or_create_schema K et (map fst cols)) (\<lambda>schema.
       io_bind (io_rs (build_record K schema et b tx i cols)) (\<lambda>r.
         io_bind (io_rs (avro_encode K schema r)) (\<lambda>payload.
           kafka_send K et payload tx)))"

definition kafka_rotate :: "('p KafkaStorage \<times> 'w, unit) io" where
  "kafka_rotate = io_return ()"

definition kafka_close :: "('p KafkaStorage \<times> 'w, unit) io" where
  "kafka_close = io_return ()"

definition kafka_names :: "'p KafkaStorage \<times> 'w \<Rightarrow> string \<Rightarrow> string list option" where
  "kafka_names = (\<lambda>(st, w) et. map_option schema_field_names (avro_schemas st et))"

section \<open>The sink interface\<close>

definition same_avro_schemas :: "'p KafkaStorage \<times> 'w \<Rightarrow> 'p KafkaStorage \<times> 'w \<Rightarrow> bool" where
  "same_avro_schemas s s' \<longleftrightarrow> fst s' = fst s"

lemma same_avro_schemas_rel [simp]: "reflp same_avro_schemas" "transp same_avro_schemas"
  by (auto simp: same_avro_schemas_def reflp_def transp_def)

lemma same_avro_schemas_rest:
  "io_rel same_avro_schemas (io_bind (io_rs r) (\<lambda>r. io_bind (io_rs (f r)) (\<lambda>payload.
     kafka_send K et payload key)))"
  by (intro io_rel_bind io_rel_rs same_avro_schemas_rel)
    (auto simp: io_rel_def kafka_send_def same_avro_schemas_def)

text \<open>The effect of a write on the storage: that of fetching the schema.\<close>

lemma kafka_write_event_state:
  assumes "kafka_write_event K et b tx i cols s = (r, s')"
  shows "fst s' = fst (snd (kafka_get_or_create_schema K et (map fst cols) s))"
proof (cases "kafka_get_or_create_schema K et (map fst cols) s")
  case (fields r0 st0 w0)
  show ?thesis
  proof (cases r0)
    case (Ok schema)
    with assms fields have "io_bind (io_rs (build_record K schema et b tx i cols)) (\<lambda>r.
         io_bind (io_rs (avro_encode K schema r)) (\<lambda>payload. kafka_send K et payload tx)) (st0, w0) = (r, s')"
      by (simp add: kafka_write_event_def io_bind_def)
    from io_relD [OF same_avro_schemas_rest this] fields show ?thesis
      by (simp add: same_avro_schemas_def)
  qed (use assms fields in \<open>auto simp: kafka_write_event_def io_bind_def\<close>)
qed

interpretation kafka: event_sink "kafka_write_event K" kafka_rotate kafka_close kafka_names
  for K :: "('w, 'p, 'rec) kafka_api"
proof unfold_locales
  fix s s' :: "'p KafkaStorage \<times> 'w" and et b tx i cols r k ns
  obtain st w st' w' where s: "s = (st, w)" and s': "s' = (st', w')" by fastforce
  show "kafka_write_event K et b tx i cols s = (Err (schema_mismatch et), s)"
    if "kafka_names s et = Some ns" "ns \<noteq> expected_schema_names (map fst cols)"
    using that by (auto simp: kafka_names_def s kafka_write_event_def kafka_get_or_create_schema_def
        io_bind_def)
  show "kafka_names s' k = Some ns"
    if "kafka_write_event K et b tx i cols s = (r, s')" "kafka_names s k = Some ns"
    using kafka_write_event_state [OF that(1)] that(2)
    by (auto simp: kafka_names_def s s' kafka_get_or_create_schema_def split: option.splits
        rs.splits if_splits)
  show "kafka_names s' k = kafka_names s k"
    if "kafka_write_event K et b tx i cols s = (r, s')" "k \<noteq> et"
    using kafka_write_event_state [OF that(1)] that(2)
    by (auto simp: kafka_names_def s s' kafka_get_or_create_schema_def split: option.splits
        rs.splits if_splits)
  show "kafka_names s' = kafka_names s" if "kafka_rotate s = (r, s')"
    using that by (simp add: kafka_rotate_def)
  show "kafka_names s' = kafka_names s" if "kafka_close s = (r, s')"
    using that by (simp add: kafka_close_def)
qed

section \<open>Documented behaviour of the Avro library\<close>

text \<open>
  Parsing the JSON of a record schema, when it succeeds, returns that record, whose field names are
  distinct. A new record has every field of its schema unset, and \<open>put\<close> sets a field that exists.
  \<open>view\<close> reads the fields of a record.
\<close>

definition put_field ::
  "string \<Rightarrow> AvroValue \<Rightarrow> (string \<times> AvroValue option) list \<Rightarrow> (string \<times> AvroValue option) list" where
  "put_field n v fs = map (\<lambda>(k, x). if k = n then (k, Some v) else (k, x)) fs"

definition avro_ok ::
  "('w, 'p, 'rec) kafka_api \<Rightarrow> ('rec \<Rightarrow> (string \<times> AvroValue option) list) \<Rightarrow> bool" where
  "avro_ok K view \<longleftrightarrow>
     (\<forall>et fs schema. parse_str K (json_to_string K (schema_json et fs)) = Ok schema \<longrightarrow>
        schema = Avro_Record et fs \<and> distinct (map fst fs)) \<and>
     (\<forall>et fs. \<exists>r. record_new K (Avro_Record et fs) = Some r \<and> view r = map (\<lambda>(n, ty). (n, None)) fs) \<and>
     (\<forall>n v r. view (record_put K n v r) = put_field n v (view r))"

text \<open>Every cached schema is the record of its event type, with the metadata fields in front.\<close>

definition kafka_wf :: "'p KafkaStorage \<Rightarrow> bool" where
  "kafka_wf st \<longleftrightarrow> (\<forall>et schema. avro_schemas st et = Some schema \<longrightarrow>
     (\<exists>cols. schema = Avro_Record et (avro_fields cols) \<and> distinct (map fst (avro_fields cols))))"

lemma avro_fields_names [simp]: "map fst (avro_fields cols) = expected_schema_names cols"
  by (simp add: avro_fields_def expected_schema_names_def metadata_names_def comp_def)

lemma avro_fields_inject [simp]: "avro_fields a = avro_fields b \<longleftrightarrow> a = b"
  by (metis avro_fields_names expected_schema_names_inject)

lemma kafka_schema_Ok:
  assumes "kafka_get_or_create_schema K et cols (st, w) = (Ok schema, (st', w'))"
    and "avro_ok K view" and "kafka_wf st"
  shows "schema = Avro_Record et (avro_fields cols)" and "distinct (expected_schema_names cols)"
    and "w' = w" and "producer st' = producer st" and "topic_prefix st' = topic_prefix st"
    and "kafka_wf st'" and "avro_schemas st' et = Some schema"
proof -
  have "schema = Avro_Record et (avro_fields cols) \<and> distinct (expected_schema_names cols)
      \<and> w' = w \<and> producer st' = producer st \<and> topic_prefix st' = topic_prefix st \<and> kafka_wf st'
      \<and> avro_schemas st' et = Some schema"
  proof (cases "avro_schemas st et")
    case None
    with assms(1) have p: "parse_str K (json_to_string K (schema_json et (avro_fields cols))) = Ok schema"
      and st': "st' = st\<lparr>avro_schemas := (avro_schemas st)(et \<mapsto> schema)\<rparr>" "w' = w"
      by (auto simp: kafka_get_or_create_schema_def split: rs.splits)
    from p assms(2) have "schema = Avro_Record et (avro_fields cols)"
      and "distinct (map fst (avro_fields cols))"
      by (auto simp: avro_ok_def simp del: avro_fields_names)
    with assms(3) show ?thesis by (auto simp: st' kafka_wf_def)
  next
    case (Some sch)
    with assms(3) obtain cols' where "sch = Avro_Record et (avro_fields cols')"
      "distinct (expected_schema_names cols')" by (auto simp: kafka_wf_def)
    with Some assms(1,3) show ?thesis
      by (auto simp: kafka_get_or_create_schema_def split: if_splits)
  qed
  then show "schema = Avro_Record et (avro_fields cols)" and "distinct (expected_schema_names cols)"
    and "w' = w" and "producer st' = producer st" and "topic_prefix st' = topic_prefix st"
    and "kafka_wf st'" and "avro_schemas st' et = Some schema" by simp_all
qed

section \<open>The record of an event\<close>

definition event_record ::
  "string \<Rightarrow> u64 \<Rightarrow> string \<Rightarrow> u64 \<Rightarrow> (string \<times> string) list \<Rightarrow> (string \<times> AvroValue option) list" where
  "event_record et b tx i cols =
     [(''event_type'', Some (Avro_String et)), (''block_number'', Some (Avro_Long (as_i64 b))),
      (''transaction_hash'', Some (Avro_String tx)), (''log_index'', Some (Avro_Long (as_i64 i)))]
     @ map (\<lambda>(name, v). (name, Some (Avro_String v))) cols"

lemma put_field_append [simp]: "put_field n v (xs @ ys) = put_field n v xs @ put_field n v ys"
  by (simp add: put_field_def)

lemma put_field_Cons [simp]:
  "put_field n v ((k, x) # xs) = (if k = n then (k, Some v) else (k, x)) # put_field n v xs"
  by (simp add: put_field_def)

lemma put_field_Nil [simp]: "put_field n v [] = []"
  by (simp add: put_field_def)

lemma put_field_other: "n \<notin> set (map fst fs) \<Longrightarrow> put_field n v fs = fs"
  unfolding put_field_def by (rule map_idI) force

lemma put_columns_view:
  assumes "avro_ok K view" and "distinct (map fst pre @ map fst cols)"
    and "view r = pre @ map (\<lambda>(name, v). (name, None)) cols"
  shows "view (put_columns K cols r) = pre @ map (\<lambda>(name, v). (name, Some (Avro_String v))) cols"
  using assms(2,3)
proof (induction cols arbitrary: pre r)
  case Nil
  then show ?case by (simp add: put_columns_def)
next
  case (Cons c cols)
  obtain n v where c: "c = (n, v)" by fastforce
  have put: "view (record_put K n (Avro_String v) r) = put_field n (Avro_String v) (view r)"
    using assms(1) by (simp add: avro_ok_def)
  have "n \<notin> set (map fst pre)" "n \<notin> set (map fst (map (\<lambda>(name, v). (name, None :: AvroValue option)) cols))"
    using Cons.prems(1) by (force simp: c)+
  then have "view (record_put K n (Avro_String v) r)
      = (pre @ [(n, Some (Avro_String v))]) @ map (\<lambda>(name, v). (name, None)) cols"
    using Cons.prems(2) by (simp add: put c put_field_other del: map_map)
  from Cons.IH [OF _ this] Cons.prems(1) show ?case by (simp add: c put_columns_def)
qed

lemma fill_record_view:
  assumes "avro_ok K view" and "distinct (expected_schema_names (map fst cols))"
    and "view r = map (\<lambda>(n, ty). (n, None)) (avro_fields (map fst cols))"
  shows "view (fill_record K et b tx i cols r) = event_record et b tx i cols"
proof -
  have put: "view (record_put K n v r) = put_field n v (view r)" for n v r
    using assms(1) by (simp add: avro_ok_def)
  have names: "n \<notin> set (map fst cols)" if "n \<in> set metadata_names" for n
    using assms(2) that by (auto simp: expected_schema_names_def)
  have rest: "put_field n v (map (\<lambda>(name, v). (name, None)) cols) = map (\<lambda>(name, v). (name, None)) cols"
    if "n \<in> set metadata_names" for n v
    by (rule put_field_other) (use names [OF that] in \<open>auto simp: image_iff split_def\<close>)
  define r4 where "r4 = record_put K ''log_index'' (Avro_Long (as_i64 i))
     (record_put K ''transaction_hash'' (Avro_String tx)
       (record_put K ''block_number'' (Avro_Long (as_i64 b))
         (record_put K ''event_type'' (Avro_String et) r)))"
  have start: "view r = [(''event_type'', None), (''block_number'', None), (''transaction_hash'', None),
      (''log_index'', None)] @ map (\<lambda>(name, v). (name, None)) cols"
    using assms(3) by (simp add: avro_fields_def comp_def split_def)
  have "view r4 = [(''event_type'', Some (Avro_String et)), (''block_number'', Some (Avro_Long (as_i64 b))),
      (''transaction_hash'', Some (Avro_String tx)), (''log_index'', Some (Avro_Long (as_i64 i)))]
     @ map (\<lambda>(name, v). (name, None)) cols"
    unfolding r4_def put start put_field_append
    by (simp add: rest metadata_names_def)
  from put_columns_view [OF assms(1) _ this] assms(2) show ?thesis
    by (simp add: fill_record_def Let_def r4_def event_record_def expected_schema_names_def
        metadata_names_def)
qed

lemma kafka_write_Ok:
  assumes e: "kafka_write_event K et b tx i cols (st, w) = (Ok (), (st', w'))"
    and ok: "avro_ok K view" and wf: "kafka_wf st"
  shows "\<exists>r payload. view r = event_record et b tx i cols
      \<and> avro_encode K (Avro_Record et (avro_fields (map fst cols))) r = Ok payload
      \<and> send_record K (producer st) (topic_name st et) payload tx w = (Ok (), w')"
    and "kafka_wf st'" and "avro_schemas st' et = Some (Avro_Record et (avro_fields (map fst cols)))"
proof -
  from e obtain schema st1 w1 r payload where
    g: "kafka_get_or_create_schema K et (map fst cols) (st, w) = (Ok schema, (st1, w1))"
    and r: "build_record K schema et b tx i cols = Ok r" and p: "avro_encode K schema r = Ok payload"
    and s: "kafka_send K et payload tx (st1, w1) = (Ok (), (st', w'))"
    by (auto simp: kafka_write_event_def elim!: io_bind_Ok_elim)
  note 1 = kafka_schema_Ok [OF g ok wf]
  from ok 1(1) obtain r0 where r0: "record_new K schema = Some r0"
    "view r0 = map (\<lambda>(n, ty). (n, None)) (avro_fields (map fst cols))"
    unfolding avro_ok_def by blast
  with r have "r = fill_record K et b tx i cols r0" by (simp add: build_record_def)
  with fill_record_view [OF ok 1(2) r0(2)] have "view r = event_record et b tx i cols" by simp
  moreover have "send_record K (producer st) (topic_name st et) payload tx w = (Ok (), w')" and "st' = st1"
    using s 1 by (auto simp: kafka_send_def topic_name_def) (metis prod.collapse)
  ultimately show "\<exists>r payload. view r = event_record et b tx i cols
      \<and> avro_encode K (Avro_Record et (avro_fields (map fst cols))) r = Ok payload
      \<and> send_record K (producer st) (topic_name st et) payload tx w = (Ok (), w')"
    using p 1(1) by blast
  show "kafka_wf st'" and "avro_schemas st' et = Some (Avro_Record et (avro_fields (map fst cols)))"
    using 1 \<open>st' = st1\<close> by simp_all
qed

section \<open>An instance that records the messages\<close>

text \<open>It knows the schema of one event type; the world is the list of messages sent.\<close>

definition recording_schema :: AvroSchema where
  "recording_schema = Avro_Record ''OrderCancelled'' (avro_fields [''order_hash''])"

definition recording_api ::
  "((string \<times> bytes \<times> string) list, unit, (string \<times> AvroValue option) list) kafka_api" where
  "recording_api = \<lparr>
     json_to_string = (\<lambda>j. if j = schema_json ''OrderCancelled'' (avro_fields [''order_hash''])
       then ''known'' else ''unknown''),
     parse_str = (\<lambda>s. if s = ''known'' then Ok recording_schema else Err ''not an Avro schema''),
     record_new = (\<lambda>schema. case schema of
       Avro_Record name fs \<Rightarrow> Some (map (\<lambda>(n, ty). (n, None)) fs) | Avro_Other name \<Rightarrow> None),
     record_put = put_field,
     avro_encode = (\<lambda>schema r. Ok (map (\<lambda>(n, v). word_of_nat (length n)) r)),
     create_producer = (\<lambda>settings. Ok ()),
     send_record = (\<lambda>p topic payload key w. (Ok (), w @ [(topic, payload, key)]))\<rparr>"

lemma recording_api_ok: "avro_ok recording_api (\<lambda>r. r)"
proof -
  have fs: "fs = avro_fields [''order_hash''] \<and> et = ''OrderCancelled''"
    if "schema_json et fs = schema_json ''OrderCancelled'' (avro_fields [''order_hash''])" for et fs
  proof -
    have "inj field_json" by (auto simp: inj_def field_json_def)
    with that show ?thesis by (simp add: schema_json_def inj_map_eq_map)
  qed
  show ?thesis
    by (auto simp: avro_ok_def recording_api_def recording_schema_def expected_schema_names_def
        metadata_names_def split: if_splits dest!: fs)
qed

definition recording_sink :: "unit KafkaStorage" where
  "recording_sink = \<lparr>producer = (), topic_prefix = ''polymarket'', avro_schemas = (\<lambda>et. None)\<rparr>"

lemma recording_sink_wf: "kafka_wf recording_sink"
  by (simp add: kafka_wf_def recording_sink_def)

lemmas recording_eval = recording_api_def recording_sink_def recording_schema_def
  kafka_write_event_def kafka_get_or_create_schema_def build_record_def fill_record_def
  put_columns_def put_field_def kafka_send_def topic_name_def avro_fields_def io_bind_def Let_def

section \<open>Properties\<close>

text \<open>C38. A successful write to Kafka sends one message: to the topic of the event type, keyed by the
  transaction hash, whose payload encodes the Avro record with the four metadata fields and the
  event's columns, each set to its value.\<close>

theorem kafka_write_sends_event:
  assumes "kafka_write_event K et b tx i cols (st, w) = (Ok (), (st', w'))"
    and "avro_ok K view" and "kafka_wf st"
  shows "\<exists>r payload. view r = event_record et b tx i cols
      \<and> avro_encode K (Avro_Record et (avro_fields (map fst cols))) r = Ok payload
      \<and> send_record K (producer st) (topic_prefix st @ ''.'' @ et) payload tx w = (Ok (), w')"
    (is ?sent)
proof -
  show ?sent using kafka_write_Ok(1) [OF assms] by (simp add: topic_name_def)
qed

theorem kafka_write_sends_event_witness:
  "\<exists>st' payload. kafka_write_event recording_api ''OrderCancelled'' 7 ''0xab'' 3
       [(''order_hash'', ''0x01'')] (recording_sink, [])
     = (Ok (), (st', [(''polymarket.OrderCancelled'', payload, ''0xab'')]))"
proof -
  obtain st' w' where e: "kafka_write_event recording_api ''OrderCancelled'' 7 ''0xab'' 3
       [(''order_hash'', ''0x01'')] (recording_sink, []) = (Ok (), (st', w'))"
    by (simp add: recording_eval)
  from kafka_write_sends_event [OF e recording_api_ok recording_sink_wf] obtain payload where
    "w' = [(''polymarket.OrderCancelled'', payload, ''0xab'')]"
    by (auto simp: recording_api_def recording_sink_def)
  with e show ?thesis by blast
qed

text \<open>Also in the Kafka sink the first successful write of an event type fixes its columns.\<close>

lemma kafka_one_schema_per_type:
  assumes "kafka_write_event K et b tx i cols (st, w) = (Ok (), s1)"
    and "avro_ok K view" and "kafka_wf st"
    and "kafka_write_event K et b' tx' i' cols'
           (sink_after (kafka_write_event K) kafka_rotate kafka_close ops s1) = (Ok (), s2)"
  shows "map fst cols' = map fst cols"
proof -
  obtain st1 w1 where s1: "s1 = (st1, w1)" by fastforce
  have "kafka_names s1 et = Some (expected_schema_names (map fst cols))"
    using kafka_write_Ok(3) [OF assms(1) [unfolded s1] assms(2,3)] by (simp add: s1 kafka_names_def)
  from kafka.write_ok_matches [OF assms(4) kafka.after_keeps [OF this]] show ?thesis by simp
qed

text \<open>The block number and log index a Kafka record holds, read as the signed \<open>long\<close> of Avro, are
  the event's exactly when they are below 2^63; a larger one is stored as a negative number.\<close>

lemma kafka_long_faithful:
  "sint (as_i64 b) = (if uint b < 2 ^ 63 then uint b else uint b - 2 ^ 64)"
proof -
  have u: "uint b < 2 ^ 64" by (rule order_less_le_trans [OF unsigned_less]) simp
  have "sint (as_i64 b) = (uint b + 2 ^ 63) mod 2 ^ 64 - 2 ^ 63"
    using int_word_sint [of "uint b", where 'a = 64] by (simp add: as_i64_def)
  also have "\<dots> = (if uint b < 2 ^ 63 then uint b else uint b - 2 ^ 64)"
  proof (cases "uint b < 2 ^ 63")
    case True
    then show ?thesis by (simp add: mod_pos_pos_trivial)
  next
    case False
    with u have "(uint b + 2 ^ 63) mod 2 ^ 64 = (uint b - 2 ^ 63 + 2 ^ 64) mod 2 ^ 64"
      by (simp add: add.commute)
    also have "\<dots> = uint b - 2 ^ 63"
      using False u by (simp only: mod_add_self2) (simp add: mod_pos_pos_trivial)
    finally show ?thesis using False by simp
  qed
  finally show ?thesis .
qed

end
