(* ===== verification/Dyn_Sink.thy ===== *)
theory Dyn_Sink
  imports Parquet_Storage Kafka_Storage
begin

text \<open>
  The sink the frontfill runtime uses through \<open>Box<dyn EventSink>\<close>: a value of one of the two storage
  types, whose operations are those of that type (\<open>impl EventSink for ParquetStorage\<close> and
  \<open>for KafkaStorage\<close> in \<open>src/src/storage.rs\<close>), and \<open>build_storage\<close> of \<open>src/src/frontfill.rs\<close> that
  makes it. Both storages keep the contract of the sink interface, so the boxed sink does.
\<close>

section \<open>The boxed sink\<close>

datatype SinkConfig =
    SinkParquet string
  | SinkKafka "string option" string

datatype ('h, 'p) dyn_sink =
    ParquetSink "'h ParquetStorage"
  | KafkaSink "'p KafkaStorage"

text \<open>Whether the program was built with the \<open>kafka\<close> feature is a parameter.\<close>

definition build_storage ::
  "bool \<Rightarrow> ('w, 'p, 'rec) kafka_api \<Rightarrow> SinkConfig \<Rightarrow> ('h, 'p) dyn_sink rs" where
  "build_storage kafka_feature K sink = (case sink of
      SinkParquet output_dir \<Rightarrow> Ok (ParquetSink (ParquetStorage_new output_dir))
    | SinkKafka brokers prefix \<Rightarrow>
        if kafka_feature then
          (case brokers of
             None \<Rightarrow> Err ''kafka sink requires --kafka-brokers''
           | Some b \<Rightarrow> map_rs_value KafkaSink (KafkaStorage_new K b prefix))
        else Err (''kafka sink requires the '' @ [CHR 0x27] @ ''kafka'' @ [CHR 0x27] @ '' feature flag''))"

text \<open>A call on the boxed sink is the call on the storage it holds.\<close>

definition dispatch ::
  "('h ParquetStorage \<times> 'w, 'a) io \<Rightarrow> ('p KafkaStorage \<times> 'w, 'a) io \<Rightarrow>
     (('h, 'p) dyn_sink \<times> 'w, 'a) io" where
  "dispatch on_parquet on_kafka = (\<lambda>(sink, w). case sink of
      ParquetSink st \<Rightarrow> (let (r, (st', w')) = on_parquet (st, w) in (r, (ParquetSink st', w')))
    | KafkaSink st \<Rightarrow> (let (r, (st', w')) = on_kafka (st, w) in (r, (KafkaSink st', w'))))"

definition sink_write_event ::
  "('w, 'f, 'h) parquet_api \<Rightarrow> ('w, 'p, 'rec) kafka_api \<Rightarrow> (('h, 'p) dyn_sink \<times> 'w) sink_write" where
  "sink_write_event P K et b tx i cols =
     dispatch (write_event P et b tx i cols) (kafka_write_event K et b tx i cols)"

definition sink_rotate :: "('w, 'f, 'h) parquet_api \<Rightarrow> (('h, 'p) dyn_sink \<times> 'w, unit) io" where
  "sink_rotate P = dispatch (rotate_writers P) kafka_rotate"

definition sink_close :: "('w, 'f, 'h) parquet_api \<Rightarrow> (('h, 'p) dyn_sink \<times> 'w, unit) io" where
  "sink_close P = dispatch (close_writers P) kafka_close"

definition sink_names :: "('h, 'p) dyn_sink \<times> 'w \<Rightarrow> string \<Rightarrow> string list option" where
  "sink_names = (\<lambda>(sink, w). case sink of
      ParquetSink st \<Rightarrow> cached_names (st, w)
    | KafkaSink st \<Rightarrow> kafka_names (st, w))"

lemma dispatch_cases:
  assumes "dispatch mp mk (sink, w) = (r, (sink', w'))"
  obtains st st' where "sink = ParquetSink st" "sink' = ParquetSink st'" "mp (st, w) = (r, (st', w'))"
  | st st' where "sink = KafkaSink st" "sink' = KafkaSink st'" "mk (st, w) = (r, (st', w'))"
  using assms by (cases sink) (auto simp: dispatch_def split: prod.splits)

interpretation dyn: event_sink "sink_write_event P K" "sink_rotate P" "sink_close P" sink_names
  for P :: "('w, 'f, 'h) parquet_api" and K :: "('w, 'p, 'rec) kafka_api"
proof unfold_locales
  fix s s' :: "('h, 'p) dyn_sink \<times> 'w" and et b tx i cols r k ns
  obtain sink w sink' w' where s: "s = (sink, w)" and s': "s' = (sink', w')" by fastforce
  show "sink_write_event P K et b tx i cols s = (Err (schema_mismatch et), s)"
    if "sink_names s et = Some ns" "ns \<noteq> expected_schema_names (map fst cols)"
  proof (cases sink)
    case (ParquetSink st)
    then have "cached_names (st, w) et = Some ns" using that(1) by (simp add: s sink_names_def)
    from parquet.write_mismatch [OF this that(2), of P b tx i] ParquetSink show ?thesis
      by (simp add: s sink_write_event_def dispatch_def)
  next
    case (KafkaSink st)
    then have "kafka_names (st, w) et = Some ns" using that(1) by (simp add: s sink_names_def)
    from kafka.write_mismatch [OF this that(2), of K b tx i] KafkaSink show ?thesis
      by (simp add: s sink_write_event_def dispatch_def)
  qed
  show "sink_names s' k = Some ns"
    if "sink_write_event P K et b tx i cols s = (r, s')" "sink_names s k = Some ns"
    using that unfolding s s' sink_write_event_def
    by (elim dispatch_cases) (auto simp: sink_names_def dest: parquet.write_keeps kafka.write_keeps)
  show "sink_names s' k = sink_names s k"
    if "sink_write_event P K et b tx i cols s = (r, s')" "k \<noteq> et"
    using that unfolding s s' sink_write_event_def
    by (elim dispatch_cases) (auto simp: sink_names_def dest: parquet.write_frame kafka.write_frame)
  show "sink_names s' = sink_names s" if "sink_rotate P s = (r, s')"
    using that unfolding s s' sink_rotate_def
    by (elim dispatch_cases)
      (auto simp: sink_names_def dest: parquet.rotate_schema kafka.rotate_schema)
  show "sink_names s' = sink_names s" if "sink_close P s = (r, s')"
    using that unfolding s s' sink_close_def
    by (elim dispatch_cases)
      (auto simp: sink_names_def dest: parquet.close_schema kafka.close_schema)
qed

end
