(* ===== verification/Metrics.thy ===== *)
theory Metrics
  imports Prelude Complex_Main
begin

text \<open>
  Model of \<open>src/src/metrics.rs\<close>: the registered metrics of the frontfill process, the rolling
  60-second rates kept as queues of instants, the updater that recomputes them every second, the
  health decision and the HTTP handlers. Clock readings are arguments: an \<open>Instant\<close> is a number of
  nanoseconds, the system time the nanoseconds since the Unix epoch (negative before it).
\<close>

section \<open>Floating point gauges\<close>

text \<open>
  A gauge holds an \<open>f64\<close>. The values the program stores are integers converted with \<open>as f64\<close>, which
  rounds to the nearest multiple the 53-bit significand can hold, ties to even; \<open>as u64\<close> truncates
  and saturates.
\<close>

type_synonym f64 = rat

fun bit_length :: "nat \<Rightarrow> nat" where
  "bit_length n = (if n = 0 then 0 else Suc (bit_length (n div 2)))"

declare bit_length.simps [simp del]

definition f64_round :: "nat \<Rightarrow> nat" where
  "f64_round n =
     (let s = bit_length n - 53; m = n div 2 ^ s; r = n mod 2 ^ s;
          up = (2 ^ s < 2 * r \<or> (2 * r = 2 ^ s \<and> s \<noteq> 0 \<and> odd m))
      in (if up then m + 1 else m) * 2 ^ s)"

definition f64_of_nat :: "nat \<Rightarrow> f64" where
  "f64_of_nat n = of_nat (f64_round n)"

definition f64_of_u64 :: "u64 \<Rightarrow> f64" where
  "f64_of_u64 w = f64_of_nat (unat w)"

definition u64_of_f64 :: "f64 \<Rightarrow> u64" where
  "u64_of_f64 v = (if v \<le> 0 then 0 else if 2 ^ 64 \<le> \<lfloor>v\<rfloor> then - 1 else word_of_int \<lfloor>v\<rfloor>)"

lemma bit_length_le: "n < 2 ^ k \<Longrightarrow> bit_length n \<le> k"
proof (induction n arbitrary: k rule: bit_length.induct)
  case (1 n)
  show ?case
  proof (cases "n = 0")
    case True
    then show ?thesis by (simp add: bit_length.simps)
  next
    case False
    then obtain j where k: "k = Suc j" using "1.prems" by (cases k) auto
    then have "n div 2 < 2 ^ j" using "1.prems" by simp
    from "1.IH" [OF False this] False k show ?thesis by (simp add: bit_length.simps [of n])
  qed
qed

lemma f64_round_exact [simp]: "n < 2 ^ 53 \<Longrightarrow> f64_round n = n"
  using bit_length_le [of n 53] by (simp add: f64_round_def)

lemma f64_of_u64_exact: "unat w < 2 ^ 53 \<Longrightarrow> f64_of_u64 w = of_nat (unat w)"
  by (simp add: f64_of_u64_def f64_of_nat_def)

lemma u64_of_f64_of_nat: "n < 2 ^ 64 \<Longrightarrow> u64_of_f64 (of_nat n) = word_of_nat n"
  by (cases "n = 0") (simp_all add: u64_of_f64_def)

lemma u64_of_f64_of_u64: "unat w < 2 ^ 53 \<Longrightarrow> u64_of_f64 (f64_of_u64 w) = w"
  using u64_of_f64_of_nat [of "unat w"] by (simp only: f64_of_u64_exact) simp

section \<open>State\<close>

text \<open>One entry per log in the last minute, oldest first; one queue per decoded event type.\<close>

record RateState =
  total :: "int list"
  by_type :: "int list hash_map"

text \<open>
  The metrics a process exports. A counter is a \<open>u64\<close>; a metric with labels has a value for each
  label that was used; of the write-latency histogram the number of observations is kept.
\<close>

record FrontfillMetrics =
  current_block_number :: f64
  logs_total :: u64
  logs_by_type_total :: "string \<Rightarrow> u64 option"
  logs_per_minute :: f64
  logs_per_minute_by_type :: "string \<Rightarrow> f64 option"
  decode_errors_total :: u64
  write_errors_total :: u64
  missing_metadata_total :: u64
  rotate_total :: u64
  shutdown_total :: u64
  sink_write_seconds :: u64
  ws_connected :: f64
  last_log_unix_seconds :: f64
  rate_state :: RateState

definition new_metrics :: FrontfillMetrics where
  "new_metrics = \<lparr>current_block_number = 0, logs_total = 0, logs_by_type_total = (\<lambda>t. None),
     logs_per_minute = 0, logs_per_minute_by_type = (\<lambda>t. None), decode_errors_total = 0,
     write_errors_total = 0, missing_metadata_total = 0, rotate_total = 0, shutdown_total = 0,
     sink_write_seconds = 0, ws_connected = 0, last_log_unix_seconds = 0,
     rate_state = \<lparr>total = [], by_type = []\<rparr>\<rparr>"

section \<open>Rates\<close>

definition minute :: int where
  "minute = 60 * 1000000000"

text \<open>
  The loops that drop entries older than the cutoff from the front of a queue. An \<open>Instant\<close> is an integer number
  of nanoseconds: the cutoff may lie before the start of the clock, as it may on Linux, where the
  subtraction does not panic.
\<close>

fun pop_old :: "int \<Rightarrow> int list \<Rightarrow> int list" where
  "pop_old cutoff [] = []"
| "pop_old cutoff (t # ts) = (if t < cutoff then pop_old cutoff ts else t # ts)"

definition prune_old_entries :: "int \<Rightarrow> RateState \<Rightarrow> RateState" where
  "prune_old_entries now s =
     (let cutoff = now - minute
      in \<lparr>total = pop_old cutoff (total s),
          by_type = map (\<lambda>(t, entries). (t, pop_old cutoff entries)) (by_type s)\<rparr>)"

text \<open>The loop over the map sets the gauge of every type; each type has its own gauge.\<close>

fun set_type_rates :: "(string \<times> int list) list \<Rightarrow> (string \<Rightarrow> f64 option) \<Rightarrow> string \<Rightarrow> f64 option" where
  "set_type_rates [] g = g"
| "set_type_rates ((t, events) # rest) g =
     set_type_rates rest (g(t \<mapsto> f64_of_nat (length events)))"

definition prune_and_recalculate_rates ::
  "hash_order \<Rightarrow> int \<Rightarrow> FrontfillMetrics \<Rightarrow> FrontfillMetrics" where
  "prune_and_recalculate_rates iter now m =
     (let s = prune_old_entries now (rate_state m)
      in m\<lparr>rate_state := s, logs_per_minute := f64_of_nat (length (total s)),
           logs_per_minute_by_type :=
             set_type_rates (hash_entries iter (by_type s)) (logs_per_minute_by_type m)\<rparr>)"

definition current_unix_timestamp_seconds :: "int \<Rightarrow> u64" where
  "current_unix_timestamp_seconds sys = (if sys < 0 then 0 else word_of_int (sys div 1000000000))"

text \<open>
  \<open>observe_log\<close> reads the system clock, then the monotonic clock for the new entry and again in
  \<open>prune_old_entries\<close>.
\<close>

record clock =
  system_time :: int
  entry_time :: int
  prune_time :: int

definition observe_log :: "hash_order \<Rightarrow> clock \<Rightarrow> u64 \<Rightarrow> FrontfillMetrics \<Rightarrow> FrontfillMetrics" where
  "observe_log iter c b m =
     (let m = m\<lparr>logs_total := logs_total m + 1, current_block_number := f64_of_u64 b,
                last_log_unix_seconds := f64_of_u64 (current_unix_timestamp_seconds (system_time c))\<rparr>;
          s = rate_state m;
          m = m\<lparr>rate_state := s\<lparr>total := total s @ [entry_time c]\<rparr>\<rparr>
      in prune_and_recalculate_rates iter (prune_time c) m)"

definition observe_decoded_type ::
  "hash_order \<Rightarrow> clock \<Rightarrow> string \<Rightarrow> FrontfillMetrics \<Rightarrow> FrontfillMetrics" where
  "observe_decoded_type iter c et m =
     (let n = (case logs_by_type_total m et of None \<Rightarrow> 0 | Some n \<Rightarrow> n);
          m = m\<lparr>logs_by_type_total := (logs_by_type_total m)(et \<mapsto> n + 1)\<rparr>;
          s = rate_state m;
          entries = (case map_of (by_type s) et of None \<Rightarrow> [] | Some es \<Rightarrow> es);
          m = m\<lparr>rate_state := s\<lparr>by_type := AList.update et (entries @ [entry_time c]) (by_type s)\<rparr>\<rparr>
      in prune_and_recalculate_rates iter (prune_time c) m)"

text \<open>One tick of the updater task.\<close>

definition rate_tick :: "hash_order \<Rightarrow> int \<Rightarrow> FrontfillMetrics \<Rightarrow> FrontfillMetrics" where
  "rate_tick iter now m =
     (let s = prune_old_entries now (rate_state m);
          m = m\<lparr>rate_state := s\<rparr>;
          m = m\<lparr>logs_per_minute := f64_of_nat (length (total s))\<rparr>
      in m\<lparr>logs_per_minute_by_type :=
             set_type_rates (hash_entries iter (by_type s)) (logs_per_minute_by_type m)\<rparr>)"

section \<open>Health and the HTTP handlers\<close>

record HealthState =
  health_ws_connected :: f64
  health_last_log :: f64
  max_staleness_seconds :: u64

text \<open>The gauges of the health state are shared with the metrics: it reads their current values.\<close>

definition health_of :: "FrontfillMetrics \<Rightarrow> HealthState" where
  "health_of m = \<lparr>health_ws_connected = ws_connected m, health_last_log = last_log_unix_seconds m,
     max_staleness_seconds = 120\<rparr>"

definition is_healthy :: "int \<Rightarrow> HealthState \<Rightarrow> bool" where
  "is_healthy sys h =
     (if health_ws_connected h < 1 / 2 then False
      else let last_log = u64_of_f64 (health_last_log h)
        in if last_log = 0 then False
           else saturating_sub (current_unix_timestamp_seconds sys) last_log \<le> max_staleness_seconds h)"

text \<open>A response is a status code, headers and a body.\<close>

type_synonym response = "nat \<times> (string \<times> string) list \<times> string"

definition health_handler :: "int \<Rightarrow> HealthState \<Rightarrow> response" where
  "health_handler sys h = (if is_healthy sys h then (200, [], ''ok'') else (503, [], ''unhealthy''))"

definition ready_handler :: "int \<Rightarrow> HealthState \<Rightarrow> response" where
  "ready_handler sys h = (if is_healthy sys h then (200, [], ''ready'') else (503, [], ''not ready''))"

text \<open>\<open>render_metrics\<close> is what the text encoder makes of the gathered families; the content type
  becomes a header when it is a valid header value.\<close>

record ('f, 'r) prometheus_api =
  gather :: "'r \<Rightarrow> 'f"
  text_encode :: "'f \<Rightarrow> string rs"
  format_type :: string
  header_value_ok :: "string \<Rightarrow> bool"

definition render_metrics :: "('f, 'r) prometheus_api \<Rightarrow> 'r \<Rightarrow> (string \<times> string) rs" where
  "render_metrics A registry = map_rs_value (Pair (format_type A)) (text_encode A (gather A registry))"

definition metrics_handler :: "('f, 'r) prometheus_api \<Rightarrow> 'r \<Rightarrow> response rs" where
  "metrics_handler A registry = (case render_metrics A registry of
      Ok (content_type, body) \<Rightarrow>
        Ok (200, if header_value_ok A content_type then [(''content-type'', content_type)] else [], body)
    | Err e \<Rightarrow> Ok (500, [], ''metrics encode error'')
    | Panic \<Rightarrow> Panic)"

section \<open>Registration and lifecycle\<close>

datatype metric_kind = Gauge | GaugeVec | Histogram | IntCounter | IntCounterVec

record metric_desc =
  desc_kind :: metric_kind
  desc_name :: string
  desc_help :: string
  desc_labels :: "string list"

definition desc :: "metric_kind \<Rightarrow> string \<Rightarrow> string \<Rightarrow> string list \<Rightarrow> metric_desc" where
  "desc k n help labels =
     \<lparr>desc_kind = k, desc_name = ''polymarket_frontfill_'' @ n, desc_help = help, desc_labels = labels\<rparr>"

text \<open>The metrics in the order they are built, which is the order they are registered in.\<close>

definition metric_descs :: "metric_desc list" where
  "metric_descs =
     [desc Gauge ''current_block_number''
        ''Latest block number observed by frontfill'' [],
      desc IntCounter ''logs_total''
        ''Total logs observed by frontfill'' [],
      desc IntCounterVec ''logs_by_type_total''
        ''Total decoded logs by event type'' [''event_type''],
      desc Gauge ''logs_per_minute''
        ''Rolling 60-second log rate as logs/min'' [],
      desc GaugeVec ''logs_per_minute_by_type''
        ''Rolling 60-second log rate by event type as logs/min'' [''event_type''],
      desc IntCounter ''decode_errors_total''
        ''Total decode errors in frontfill'' [],
      desc IntCounter ''write_errors_total''
        ''Total sink write errors in frontfill'' [],
      desc IntCounter ''missing_metadata_total''
        ''Total logs rejected due to missing block_number, transaction_hash, or log_index'' [],
      desc IntCounter ''rotate_total''
        ''Total sink rotations triggered'' [],
      desc IntCounter ''shutdown_total''
        ''Total frontfill shutdown signals handled'' [],
      desc Histogram ''sink_write_seconds''
        ''Sink write latency in seconds'' [],
      desc Gauge ''ws_connected''
        ''WebSocket connection status (1 connected, 0 disconnected)'' [],
      desc Gauge ''last_log_unix_seconds''
        ''Unix timestamp of last observed log'' []]"

text \<open>
  \<open>server_drains\<close>: whether the graceful shutdown of the \<open>axum\<close> server, once told, comes to an end. The server
  then takes no new connection and waits until the open ones are closed, which a client may delay for ever.
\<close>

record ('w, 'r, 'addr, 'l) metrics_env =
  registry_new :: 'r
  metric_new :: "metric_desc \<Rightarrow> unit rs"
  registry_register :: "'r \<Rightarrow> metric_desc \<Rightarrow> 'r rs"
  parse_socket_addr :: "string \<Rightarrow> 'addr rs"
  tcp_bind :: "'addr \<Rightarrow> ('w, 'l) io"
  server_drains :: bool

fun register_each ::
  "('w, 'r, 'addr, 'l) metrics_env \<Rightarrow> metric_desc list \<Rightarrow> 'r \<Rightarrow> 'r rs" where
  "register_each E [] r = Ok r"
| "register_each E (d # ds) r = bind_rs (registry_register E r d) (register_each E ds)"

definition register ::
  "('w, 'r, 'addr, 'l) metrics_env \<Rightarrow> 'r \<Rightarrow> (FrontfillMetrics \<times> 'r) rs" where
  "register E r =
     bind_rs (traverse_rs (metric_new E) metric_descs) (\<lambda>_.
       bind_rs (register_each E metric_descs r) (\<lambda>r'. Ok (new_metrics, r')))"

text \<open>
  A spawned task with the sender that tells it to stop, and whether the task ends when it is told.
  Shutting down takes the sender, sends, and waits for the task: the wait is over when the task no longer
  runs, and lasts for ever when it does. The loop of the rate updater breaks when it is told.
\<close>

record task_handle =
  shutdown_tx :: bool
  task_running :: bool
  ends_when_told :: bool

definition spawned :: "bool \<Rightarrow> task_handle" where
  "spawned ends = \<lparr>shutdown_tx = True, task_running = True, ends_when_told = ends\<rparr>"

definition shutdown_task :: "task_handle \<Rightarrow> task_handle" where
  "shutdown_task h =
     h\<lparr>shutdown_tx := False, task_running := task_running h \<and> \<not> (shutdown_tx h \<and> ends_when_told h)\<rparr>"

record MetricsRuntime =
  metrics :: FrontfillMetrics
  server_handle :: task_handle
  rate_handle :: task_handle

text \<open>The routes of the HTTP server; \<open>axum\<close> answers any other path itself.\<close>

datatype route_handler = Metrics_handler | Health_handler | Ready_handler

definition app_routes :: "(string \<times> route_handler) list" where
  "app_routes = [(''/metrics'', Metrics_handler), (''/health'', Health_handler), (''/ready'', Ready_handler)]"

definition serve ::
  "('f, 'r) prometheus_api \<Rightarrow> int \<Rightarrow> 'r \<Rightarrow> HealthState \<Rightarrow> string \<Rightarrow> response rs option" where
  "serve A sys registry h path = map_option
     (\<lambda>handler. case handler of
         Metrics_handler \<Rightarrow> metrics_handler A registry
       | Health_handler \<Rightarrow> Ok (health_handler sys h)
       | Ready_handler \<Rightarrow> Ok (ready_handler sys h))
     (map_of app_routes path)"

definition start_metrics_server ::
  "('w, 'r, 'addr, 'l) metrics_env \<Rightarrow> string \<Rightarrow> u16 \<Rightarrow> ('w, task_handle) io" where
  "start_metrics_server E addr port =
     io_bind (io_rs (parse_socket_addr E (addr @ '':'' @ show_nat (unat port)))) (\<lambda>address.
       io_bind (tcp_bind E address) (\<lambda>listener. io_return (spawned (server_drains E))))"

definition start_metrics_runtime ::
  "('w, 'r, 'addr, 'l) metrics_env \<Rightarrow> string \<Rightarrow> u16 \<Rightarrow> ('w, MetricsRuntime) io" where
  "start_metrics_runtime E addr port =
     io_bind (io_rs (register E (registry_new E))) (\<lambda>(m, registry).
       io_bind (start_metrics_server E addr port) (\<lambda>server.
         io_return \<lparr>metrics = m, server_handle = server, rate_handle = spawned True\<rparr>))"

text \<open>Whether the shutdown returns, and the runtime as far as it was shut down.\<close>

definition shutdown_runtime :: "MetricsRuntime \<Rightarrow> bool \<times> MetricsRuntime" where
  "shutdown_runtime rt =
     (let rate = shutdown_task (rate_handle rt); rt = rt\<lparr>rate_handle := rate\<rparr>
      in if task_running rate then (False, rt)
         else let server = shutdown_task (server_handle rt)
              in (\<not> task_running server, rt\<lparr>server_handle := server\<rparr>))"

lemma metric_names_distinct: "distinct (map desc_name metric_descs)"
  by (simp add: metric_descs_def desc_def)

lemma started_runtime:
  assumes "start_metrics_runtime E addr port w = (Ok rt, w')"
  shows "metrics rt = new_metrics" "server_handle rt = spawned (server_drains E)" "rate_handle rt = spawned True"
  using assms
  by (auto simp: start_metrics_runtime_def start_metrics_server_def register_def
      elim!: io_bind_Ok_elim)

lemma shutdown_spawned:
  "server_handle rt = spawned drains \<Longrightarrow> rate_handle rt = spawned True \<Longrightarrow>
    \<exists>rt'. shutdown_runtime rt = (drains, rt') \<and> metrics rt' = metrics rt
      \<and> task_running (server_handle rt') = (\<not> drains) \<and> \<not> task_running (rate_handle rt')"
  by (simp add: shutdown_runtime_def shutdown_task_def spawned_def)

section \<open>Queues\<close>

lemma pop_old_filter: "sorted ts \<Longrightarrow> pop_old cutoff ts = filter (\<lambda>t. cutoff \<le> t) ts"
  by (induction ts) (auto intro!: filter_True [symmetric])

lemma filter_newer: "(c :: int) \<le> c' \<Longrightarrow> filter (\<lambda>t. c' \<le> t) (filter (\<lambda>t. c \<le> t) ts) = filter (\<lambda>t. c' \<le> t) ts"
  by (induction ts) auto

lemma sorted_snoc: "sorted ts \<Longrightarrow> \<forall>x \<in> set ts. x \<le> (t :: int) \<Longrightarrow> sorted (ts @ [t])"
  by (simp add: sorted_append)

lemma set_type_rates_apply:
  "distinct (map fst es) \<Longrightarrow> set_type_rates es g t =
    (case map_of es t of None \<Rightarrow> g t | Some ts \<Rightarrow> Some (f64_of_nat (length ts)))"
proof (induction es arbitrary: g)
  case Nil
  then show ?case by simp
next
  case (Cons e es)
  obtain k ts where e: "e = (k, ts)" by fastforce
  from Cons.prems have "map_of es k = None" by (simp add: e map_of_eq_None_iff)
  with Cons show ?case by (auto simp: e split: option.split)
qed

lemma map_of_hash_entries:
  assumes "hash_iter_ok h" and "hash_wf m"
  shows "map_of (hash_entries h m) = map_of m" and "distinct (map fst (hash_entries h m))"
proof -
  note perm = hash_entries_permutation [OF assms]
  then have "mset (map fst (hash_entries h m)) = mset (map fst m)" by simp
  then show d: "distinct (map fst (hash_entries h m))"
    using assms(2) mset_eq_imp_distinct_iff by blast
  from perm have "set (hash_entries h m) = set m" by (metis set_mset_mset)
  with assms(2) d show "map_of (hash_entries h m) = map_of m"
    by (intro ext) (metis map_of_eq_Some_iff map_of_inject_set)
qed

section \<open>Runs of the metrics\<close>

text \<open>What updates the rates: an observed log, a decoded event, a tick of the updater.\<close>

datatype observation =
    Observe_log clock u64
  | Observe_type clock string
  | Tick int

fun observe :: "hash_order \<Rightarrow> observation \<Rightarrow> FrontfillMetrics \<Rightarrow> FrontfillMetrics" where
  "observe iter (Observe_log c b) m = observe_log iter c b m"
| "observe iter (Observe_type c et) m = observe_decoded_type iter c et m"
| "observe iter (Tick now) m = rate_tick iter now m"

fun readings :: "observation \<Rightarrow> int list" where
  "readings (Observe_log c b) = [entry_time c, prune_time c]"
| "readings (Observe_type c et) = [entry_time c, prune_time c]"
| "readings (Tick now) = [now]"

definition observe_all :: "hash_order \<Rightarrow> observation list \<Rightarrow> FrontfillMetrics" where
  "observe_all iter obs = fold (observe iter) obs new_metrics"

fun log_time :: "observation \<Rightarrow> int list" where
  "log_time (Observe_log c b) = [entry_time c]"
| "log_time _ = []"

fun type_time :: "string \<Rightarrow> observation \<Rightarrow> int list" where
  "type_time et (Observe_type c t) = (if t = et then [entry_time c] else [])"
| "type_time et _ = []"

definition log_times :: "observation list \<Rightarrow> int list" where
  "log_times obs = concat (map log_time obs)"

definition type_times :: "string \<Rightarrow> observation list \<Rightarrow> int list" where
  "type_times et obs = concat (map (type_time et) obs)"

definition all_readings :: "observation list \<Rightarrow> int list" where
  "all_readings obs = concat (map readings obs)"

definition since :: "int \<Rightarrow> int list \<Rightarrow> int list" where
  "since now ts = filter (\<lambda>t. now - minute \<le> t) ts"

text \<open>
  The queues hold the times of a list of logs, and of lists of decoded events per type, that are not
  before a cutoff; a type is in the map once an event of it was seen. The gauges show the lengths.
\<close>

definition queues :: "int \<Rightarrow> int list \<Rightarrow> (string \<Rightarrow> int list) \<Rightarrow> RateState \<Rightarrow> bool" where
  "queues c logs types s \<longleftrightarrow>
     total s = filter (\<lambda>t. c \<le> t) logs \<and> sorted logs \<and> hash_wf (by_type s) \<and>
     (\<forall>et. sorted (types et) \<and> map_of (by_type s) et =
        (if types et = [] then None else Some (filter (\<lambda>t. c \<le> t) (types et))))"

definition gauges_show :: "FrontfillMetrics \<Rightarrow> bool" where
  "gauges_show m \<longleftrightarrow>
     logs_per_minute m = f64_of_nat (length (total (rate_state m))) \<and>
     (\<forall>et. logs_per_minute_by_type m et =
        map_option (\<lambda>ts. f64_of_nat (length ts)) (map_of (by_type (rate_state m)) et))"

lemma map_of_prune: "map_of (map (\<lambda>(t, es). (t, f es)) m) k = map_option f (map_of m k)"
  by (induction m) auto

lemma queues_prune:
  assumes "queues c logs types s" and "c \<le> now - minute"
  shows "queues (now - minute) logs types (prune_old_entries now s)"
proof -
  have keys: "map fst (map (\<lambda>(t, es). (t, pop_old (now - minute) es)) m) = map fst m" for m
    by (induction m) auto
  have "sorted (filter (\<lambda>t. c \<le> t) ts)" if "sorted ts" for ts :: "int list"
    using that by (rule sorted_filter [of id, simplified])
  with assms show ?thesis
    by (auto simp: queues_def prune_old_entries_def Let_def keys map_of_prune pop_old_filter
        filter_newer simp del: filter_filter map_map)
qed

lemma queues_push_log:
  "queues c logs types s \<Longrightarrow> c \<le> e \<Longrightarrow> \<forall>t \<in> set logs. t \<le> e \<Longrightarrow>
    queues c (logs @ [e]) types (s\<lparr>total := total s @ [e]\<rparr>)"
  by (simp add: queues_def sorted_append)

lemma queues_push_type:
  "queues c logs types s \<Longrightarrow> c \<le> e \<Longrightarrow> \<forall>t \<in> set (types et). t \<le> e \<Longrightarrow>
    queues c logs (types(et := types et @ [e]))
      (s\<lparr>by_type := AList.update et
          ((case map_of (by_type s) et of None \<Rightarrow> [] | Some es \<Rightarrow> es) @ [e]) (by_type s)\<rparr>)"
  by (auto simp: queues_def sorted_append update_conv' distinct_update)

lemma recalculate_shows:
  assumes "hash_iter_ok iter" and "hash_wf (by_type (rate_state m))"
    and "\<forall>et. map_of (by_type (rate_state m)) et = None \<longrightarrow> logs_per_minute_by_type m et = None"
  shows "gauges_show (prune_and_recalculate_rates iter now m)"
    and "rate_state (prune_and_recalculate_rates iter now m) = prune_old_entries now (rate_state m)"
proof -
  define s where "s = prune_old_entries now (rate_state m)"
  have keys: "map fst (map (\<lambda>(t, es). (t, f es)) m) = map fst m" for f and m :: "int list hash_map"
    by (induction m) auto
  have wf: "hash_wf (by_type s)"
    using assms(2) by (simp add: s_def prune_old_entries_def Let_def keys del: map_map)
  have none: "map_of (by_type s) et = None \<Longrightarrow> logs_per_minute_by_type m et = None" for et
    using assms(3) by (simp add: s_def prune_old_entries_def Let_def map_of_prune)
  show "gauges_show (prune_and_recalculate_rates iter now m)"
    using none map_of_hash_entries [OF assms(1) wf]
    by (auto simp: gauges_show_def prune_and_recalculate_rates_def Let_def s_def [symmetric]
        set_type_rates_apply split: option.split)
  show "rate_state (prune_and_recalculate_rates iter now m) = prune_old_entries now (rate_state m)"
    by (simp add: prune_and_recalculate_rates_def Let_def)
qed

lemma rate_tick_recalculates: "rate_tick iter now m = prune_and_recalculate_rates iter now m"
  by (simp add: rate_tick_def prune_and_recalculate_rates_def Let_def)

text \<open>One observation, whose readings are in order and not before the last cutoff.\<close>

lemma recalculate_step:
  assumes "hash_iter_ok iter" and "queues c logs types (rate_state m)" "c + minute \<le> now"
    and "\<forall>et. map_of (by_type (rate_state m)) et = None \<longrightarrow> logs_per_minute_by_type m et = None"
  shows "queues (now - minute) logs types (rate_state (prune_and_recalculate_rates iter now m))
    \<and> gauges_show (prune_and_recalculate_rates iter now m)"
  using recalculate_shows [OF assms(1) _ assms(4), of now] queues_prune [OF assms(2), of now] assms(2,3)
  by (simp add: queues_def)

lemma observe_step:
  assumes "hash_iter_ok iter" and q: "queues c logs types (rate_state m)" and g: "gauges_show m"
    and r: "sorted (readings ob)" "\<forall>t \<in> set (readings ob). c + minute \<le> t"
    and later: "\<forall>t \<in> set logs. \<forall>u \<in> set (readings ob). t \<le> u"
      "\<And>et. \<forall>t \<in> set (types et). \<forall>u \<in> set (readings ob). t \<le> u"
  shows "queues (last (readings ob) - minute) (logs @ log_time ob) (\<lambda>et. types et @ type_time et ob)
           (rate_state (observe iter ob m)) \<and> gauges_show (observe iter ob m)"
proof -
  have pos: "0 \<le> minute" by (simp add: minute_def)
  note step = recalculate_step [OF assms(1)]
  have none: "\<forall>et. map_of (by_type (rate_state m)) et = None \<longrightarrow> logs_per_minute_by_type m et = None"
    using g by (simp add: gauges_show_def)
  show ?thesis
  proof (cases ob)
    case (Observe_log ck b)
    have q': "queues c (logs @ [entry_time ck]) types
        (rate_state m\<lparr>total := total (rate_state m) @ [entry_time ck]\<rparr>)"
      using r(2) later(1) pos by (intro queues_push_log [OF q]) (auto simp: Observe_log)
    show ?thesis
      using step [where now = "prune_time ck" and m = "m\<lparr>logs_total := logs_total m + 1, current_block_number := f64_of_u64 b,
          last_log_unix_seconds := f64_of_u64 (current_unix_timestamp_seconds (system_time ck)),
          rate_state := rate_state m\<lparr>total := total (rate_state m) @ [entry_time ck]\<rparr>\<rparr>"]
        q' r(2) none
      by (simp add: Observe_log observe_log_def Let_def)
  next
    case (Observe_type ck et)
    have q': "queues c logs (types(et := types et @ [entry_time ck]))
        (rate_state m\<lparr>by_type := AList.update et ((case map_of (by_type (rate_state m)) et of
            None \<Rightarrow> [] | Some es \<Rightarrow> es) @ [entry_time ck]) (by_type (rate_state m))\<rparr>)"
      using r(2) later(2) pos by (intro queues_push_type [OF q]) (auto simp: Observe_type)
    moreover have "(\<lambda>k. types k @ (if et = k then [entry_time ck] else []))
        = types(et := types et @ [entry_time ck])" by auto
    ultimately show ?thesis
      using step [where now = "prune_time ck" and m = "m\<lparr>logs_by_type_total := (logs_by_type_total m)
            (et \<mapsto> (case logs_by_type_total m et of None \<Rightarrow> 0 | Some n \<Rightarrow> n) + 1),
          rate_state := rate_state m\<lparr>by_type := AList.update et ((case map_of (by_type (rate_state m)) et of
            None \<Rightarrow> [] | Some es \<Rightarrow> es) @ [entry_time ck]) (by_type (rate_state m))\<rparr>\<rparr>"]
        r(2) none
      by (simp add: Observe_type observe_decoded_type_def Let_def update_conv')
  next
    case (Tick now)
    with step [OF q, of now] r(2) none show ?thesis by (simp add: rate_tick_recalculates)
  qed
qed

lemma log_time_readings: "set (log_time ob) \<subseteq> set (readings ob)"
  by (cases ob) simp_all

lemma type_time_readings: "set (type_time et ob) \<subseteq> set (readings ob)"
  by (cases ob) auto

lemma readings_nonempty [simp]: "readings ob \<noteq> []"
  by (cases ob) simp_all

text \<open>The readings of one more observation are not earlier than the last of those before.\<close>

lemma reading_later:
  assumes "sorted (all_readings (obs @ [ob]))" and "u \<in> set (readings ob)"
  shows "(if obs = [] then hd (readings ob) else last (all_readings obs)) \<le> u"
proof (cases "obs = []")
  case True
  with assms show ?thesis by (cases "readings ob") (auto simp: all_readings_def)
next
  case False
  then have "last (all_readings obs) \<in> set (all_readings obs)"
    by (intro last_in_set) (cases obs; simp add: all_readings_def)
  moreover have "\<forall>t \<in> set (all_readings obs). t \<le> u"
    using assms by (auto simp: all_readings_def sorted_append)
  ultimately show ?thesis using False by simp
qed

lemma observed_times:
  "set (log_times obs) \<subseteq> set (all_readings obs)" "set (type_times et obs) \<subseteq> set (all_readings obs)"
  using log_time_readings type_time_readings by (force simp: log_times_def type_times_def all_readings_def)+

lemma observe_all_inv:
  assumes "hash_iter_ok iter" and "sorted (all_readings obs)"
  shows "(\<forall>now. (obs \<noteq> [] \<longrightarrow> now = last (all_readings obs)) \<longrightarrow>
      queues (now - minute) (log_times obs) (\<lambda>et. type_times et obs) (rate_state (observe_all iter obs)))
    \<and> gauges_show (observe_all iter obs)"
  using assms(2)
proof (induction obs rule: rev_induct)
  case Nil
  then show ?case
    by (simp add: observe_all_def new_metrics_def queues_def log_times_def type_times_def gauges_show_def
        f64_of_nat_def)
next
  case (snoc ob obs)
  have s: "sorted (all_readings obs)" "sorted (readings ob)"
    and le: "\<forall>t \<in> set (all_readings obs). \<forall>u \<in> set (readings ob). t \<le> u"
    using snoc.prems by (auto simp: all_readings_def sorted_append)
  define now where "now = (if obs = [] then hd (readings ob) else last (all_readings obs))"
  have now: "\<forall>u \<in> set (readings ob). now \<le> u"
    unfolding now_def by (rule ballI, rule reading_later [OF snoc.prems])
  from snoc.IH [OF s(1)] have q: "queues (now - minute) (log_times obs) (\<lambda>et. type_times et obs)
      (rate_state (observe_all iter obs))" and g: "gauges_show (observe_all iter obs)"
    by (simp_all add: now_def)
  have "queues (last (readings ob) - minute) (log_times obs @ log_time ob)
        (\<lambda>et. type_times et obs @ type_time et ob) (rate_state (observe iter ob (observe_all iter obs)))
      \<and> gauges_show (observe iter ob (observe_all iter obs))"
    using observed_times le now by (intro observe_step [OF assms(1) q g s(2)]) (simp, blast+)
  then show ?case
    by (simp add: observe_all_def all_readings_def log_times_def type_times_def)
qed

section \<open>Health\<close>

lemma observe_log_gauges:
  "ws_connected (observe_log iter c b m) = ws_connected m"
  "last_log_unix_seconds (observe_log iter c b m)
     = f64_of_u64 (current_unix_timestamp_seconds (system_time c))"
  "logs_total (observe_log iter c b m) = logs_total m + 1"
  "current_block_number (observe_log iter c b m) = f64_of_u64 b"
  by (simp_all add: observe_log_def prune_and_recalculate_rates_def Let_def)

lemma is_healthy_iff:
  assumes "unat seen < 2 ^ 53"
  shows "is_healthy sys \<lparr>health_ws_connected = ws, health_last_log = f64_of_u64 seen,
      max_staleness_seconds = 120\<rparr> \<longleftrightarrow>
    1 / 2 \<le> ws \<and> seen \<noteq> 0 \<and> unat (current_unix_timestamp_seconds sys) - unat seen \<le> 120"
  by (auto simp: is_healthy_def u64_of_f64_of_u64 [OF assms] word_le_nat_alt u64_simps)

section \<open>Properties\<close>

text \<open>C25. The rate gauges are exact: after any sequence of observed logs, decoded events and updater
  ticks whose clock readings are in order, \<open>logs_per_minute\<close> is the number of logs observed in the
  60 seconds before the last reading, and the gauge of an event type the number of its events in that
  minute, absent only for a type never seen.\<close>

theorem rate_gauges_exact:
  assumes "hash_iter_ok iter" and "sorted (all_readings obs)" and "obs \<noteq> []"
  shows "logs_per_minute (observe_all iter obs)
        = f64_of_nat (length (since (last (all_readings obs)) (log_times obs)))
      \<and> logs_per_minute_by_type (observe_all iter obs) et
        = (if type_times et obs = [] then None
           else Some (f64_of_nat (length (since (last (all_readings obs)) (type_times et obs)))))"
  using observe_all_inv [OF assms(1,2)] assms(3) by (simp add: queues_def gauges_show_def since_def)

definition sample_observations :: "observation list" where
  "sample_observations =
     [Observe_log \<lparr>system_time = 0, entry_time = 1000000000, prune_time = 1000000000\<rparr> 7,
      Observe_type \<lparr>system_time = 0, entry_time = 1000000001, prune_time = 1000000001\<rparr> ''OrderFilled'',
      Observe_log \<lparr>system_time = 0, entry_time = 61000000000, prune_time = 61000000000\<rparr> 8,
      Tick 61500000000]"

theorem rate_gauges_exact_witness:
  "logs_per_minute (observe_all (\<lambda>ks. ks) sample_observations) = f64_of_nat 1
   \<and> logs_per_minute_by_type (observe_all (\<lambda>ks. ks) sample_observations) ''OrderFilled''
     = Some (f64_of_nat 0)"
  using rate_gauges_exact [of "\<lambda>ks. ks" sample_observations "''OrderFilled''"]
  by (simp add: hash_iter_ok_def sample_observations_def all_readings_def since_def log_times_def
      type_times_def minute_def)

text \<open>C37. After a log was observed, at a system time whose seconds a 53-bit significand holds, \<open>GET /health\<close> and \<open>GET /ready\<close> answer 200 exactly while the WebSocket is
  connected and the log is at most 120 seconds old (a clock set back counts as no time passed), and 503
  otherwise; no other path than these and
  \<open>/metrics\<close> is routed.\<close>

theorem health_after_log:
  assumes "unat (current_unix_timestamp_seconds (system_time c)) < 2 ^ 53"
    and "current_unix_timestamp_seconds (system_time c) \<noteq> 0"
    and "m = observe_log iter c b m0" and "ws_connected m0 = 0 \<or> ws_connected m0 = 1"
    and "fresh \<longleftrightarrow> ws_connected m0 = 1 \<and> unat (current_unix_timestamp_seconds sys)
        - unat (current_unix_timestamp_seconds (system_time c)) \<le> 120"
  shows "serve A sys registry (health_of m) ''/health''
        = Some (Ok (if fresh then (200, [], ''ok'') else (503, [], ''unhealthy'')))
    \<and> serve A sys registry (health_of m) ''/ready''
        = Some (Ok (if fresh then (200, [], ''ready'') else (503, [], ''not ready'')))
    \<and> (serve A sys registry (health_of m) path \<noteq> None \<longleftrightarrow> path \<in> {''/metrics'', ''/health'', ''/ready''})"
proof -
  have "is_healthy sys (health_of m) \<longleftrightarrow> fresh"
    unfolding health_of_def assms(3,5) observe_log_gauges is_healthy_iff [OF assms(1)]
    using assms(2,4) by auto
  then show ?thesis
    by (auto simp: serve_def app_routes_def health_handler_def ready_handler_def)
qed

definition sample_observed :: FrontfillMetrics where
  "sample_observed = observe_log (\<lambda>ks. ks)
     \<lparr>system_time = 1700000000000000000, entry_time = 1, prune_time = 1\<rparr> 7 (new_metrics\<lparr>ws_connected := 1\<rparr>)"

theorem health_after_log_witness:
  "\<forall>A :: (nat, nat list) prometheus_api.
     serve A 1700000100000000000 [] (health_of sample_observed) ''/health'' = Some (Ok (200, [], ''ok''))
     \<and> serve A 1700000121000000000 [] (health_of sample_observed) ''/ready'' = Some (Ok (503, [], ''not ready''))"
proof (intro allI conjI)
  fix A :: "(nat, nat list) prometheus_api"
  let ?c = "\<lparr>system_time = 1700000000000000000, entry_time = 1, prune_time = 1\<rparr>"
  note health = health_after_log [of ?c sample_observed "\<lambda>ks. ks" 7 "new_metrics\<lparr>ws_connected := 1\<rparr>",
    OF _ _ sample_observed_def]
  show "serve A 1700000100000000000 [] (health_of sample_observed) ''/health'' = Some (Ok (200, [], ''ok''))"
    using health [of True 1700000100000000000 A "[]"] by (simp add: current_unix_timestamp_seconds_def)
  show "serve A 1700000121000000000 [] (health_of sample_observed) ''/ready'' = Some (Ok (503, [], ''not ready''))"
    using health [of False 1700000121000000000 A "[]"] by (simp add: current_unix_timestamp_seconds_def)
qed

text \<open>The shutdown of a metrics runtime that started tells both tasks to stop and returns exactly when the
  connections of the server drain; the updater has ended and the metrics keep their values.\<close>

lemma runtime_shutdown_returns:
  assumes "start_metrics_runtime E addr port w = (Ok rt, w')"
  shows "\<exists>rt'. shutdown_runtime (rt\<lparr>metrics := m\<rparr>) = (server_drains E, rt') \<and> metrics rt' = m
      \<and> task_running (server_handle rt') = (\<not> server_drains E) \<and> \<not> task_running (rate_handle rt')"
  using shutdown_spawned [of "rt\<lparr>metrics := m\<rparr>" "server_drains E"] started_runtime [OF assms] by simp

definition open_env :: "('w, metric_desc list, string, unit) metrics_env" where
  "open_env = \<lparr>registry_new = [], metric_new = (\<lambda>d. Ok ()),
     registry_register = (\<lambda>r d. if desc_name d \<in> set (map desc_name r) then Err ''duplicate metric''
       else Ok (d # r)),
     parse_socket_addr = (\<lambda>s. Ok s), tcp_bind = (\<lambda>a w. (Ok (), w)), server_drains = True\<rparr>"

end
