(* ===== verification/Frontfill.thy ===== *)
theory Frontfill
  imports Dyn_Sink Metrics
begin

text \<open>
  Model of \<open>src/src/frontfill.rs\<close>: configuration and WebSocket set-up, and the event loop \<open>run\<close> as
  a state machine whose inputs are what the loop waits for: the outcome of a connection or
  subscription attempt, the next log or the end of the stream, Ctrl-C, and the ticks of the rate
  updater. A sleep is recorded in the state, the rest of an iteration is a function.
\<close>

section \<open>Configuration and set-up\<close>

record FrontfillConfig =
  flush_blocks :: u64
  start_block :: "u64 option"
  rpc_url :: string
  rpc_auth_key :: "string option"
  rpc_auth_header :: string
  rpc_auth_scheme :: string
  metrics_enabled :: bool
  metrics_bind :: string
  metrics_port :: u16
  sink :: SinkConfig

text \<open>\<open>Filter\<close>, \<open>BlockNumberOrTag\<close>, \<open>Authorization\<close> and \<open>WsConnect\<close> of \<open>alloy\<close>, as far as they are built.\<close>

datatype BlockNumberOrTag = Latest | Number u64

record Filter =
  filter_address :: "Address list"
  from_block :: "BlockNumberOrTag option"
  to_block :: "BlockNumberOrTag option"

datatype Authorization = Auth_Bearer string | Auth_Raw string

record WsConnect =
  ws_url :: string
  ws_auth :: "Authorization option"

definition build_filter :: "(string \<Rightarrow> Address rs) \<Rightarrow> u64 option \<Rightarrow> Filter rs" where
  "build_filter address_from_str start =
     map_rs_value (\<lambda>addresses. \<lparr>filter_address = addresses,
         from_block = Some (case start of Some block \<Rightarrow> Number block | None \<Rightarrow> Latest), to_block = None\<rparr>)
       (contract_addresses address_from_str)"

text \<open>In seconds.\<close>

definition reconnect_delay :: "u32 \<Rightarrow> u64" where
  "reconnect_delay attempt = push_bit (unat (min attempt 5)) 1"

definition build_ws_auth :: "string option \<Rightarrow> string \<Rightarrow> string \<Rightarrow> Authorization option rs" where
  "build_ws_auth key header_name scheme = (case key of
      None \<Rightarrow> Ok None
    | Some key \<Rightarrow>
        if key = [] then Ok None
        else if \<not> eq_ignore_ascii_case header_name ''authorization'' then
          Err ''frontfill websocket auth supports only the Authorization header''
        else if scheme = [] then Ok (Some (Auth_Raw key))
        else if eq_ignore_ascii_case scheme ''bearer'' then Ok (Some (Auth_Bearer key))
        else Ok (Some (Auth_Raw (scheme @ '' '' @ key))))"

definition build_ws_connect ::
  "string \<Rightarrow> string option \<Rightarrow> string \<Rightarrow> string \<Rightarrow> WsConnect rs" where
  "build_ws_connect url key header scheme =
     bind_rs (build_ws_auth key header scheme) (\<lambda>auth.
       Ok (case auth of
           Some a \<Rightarrow> \<lparr>ws_url = url, ws_auth = Some a\<rparr>
         | None \<Rightarrow> \<lparr>ws_url = url, ws_auth = None\<rparr>))"

section \<open>State of the event loop\<close>

record ('w, 'f, 'h, 'p, 'rec, 'r, 'addr, 'l) ff_env =
  env_alloy :: alloy
  env_address_from_str :: "string \<Rightarrow> Address rs"
  env_parquet :: "('w, 'f, 'h) parquet_api"
  env_kafka_feature :: bool
  env_kafka :: "('w, 'p, 'rec) kafka_api"
  env_metrics :: "('w, 'r, 'addr, 'l) metrics_env"
  env_order :: hash_order

text \<open>
  The local variables of \<open>run\<close>, the outside world, the runtime after it was taken and shut down, and
  the seconds slept so far.
\<close>

record ('w, 'h, 'p) ff_state =
  storage :: "('h, 'p) dyn_sink"
  world :: 'w
  metrics_runtime :: "MetricsRuntime option"
  retired_runtime :: "MetricsRuntime option"
  next_rotation_block :: "u64 option"
  reconnect_attempt :: u32
  sleeps :: "u64 list"

datatype phase = Connecting | Subscribing | Streaming | Exited "unit rs" | Hung

datatype 's flow = Go 's | Exit "unit rs" 's | Hang 's

fun bind_flow :: "'s flow \<Rightarrow> ('s \<Rightarrow> 's flow) \<Rightarrow> 's flow" where
  "bind_flow (Go s) k = k s"
| "bind_flow (Exit r s) k = Exit r s"
| "bind_flow (Hang s) k = Hang s"

text \<open>\<open>if let Some(runtime) = metrics_runtime.as_ref()\<close>\<close>

definition with_metrics ::
  "(FrontfillMetrics \<Rightarrow> FrontfillMetrics) \<Rightarrow> ('w, 'h, 'p) ff_state \<Rightarrow> ('w, 'h, 'p) ff_state" where
  "with_metrics f st =
     st\<lparr>metrics_runtime := map_option (\<lambda>rt. rt\<lparr>metrics := f (metrics rt)\<rparr>) (metrics_runtime st)\<rparr>"

text \<open>
  \<open>if let Some(runtime) = metrics_runtime.take()\<close>, a last update of the metrics, the shutdown of the
  runtime, and the return from \<open>run\<close>, which \<open>Hang\<close> never reaches: it waits for the server.
\<close>

definition retire_and_exit ::
  "(FrontfillMetrics \<Rightarrow> FrontfillMetrics) \<Rightarrow> unit rs \<Rightarrow> ('w, 'h, 'p) ff_state \<Rightarrow>
     ('w, 'h, 'p) ff_state flow" where
  "retire_and_exit f r st = (case metrics_runtime st of
      None \<Rightarrow> Exit r st
    | Some rt \<Rightarrow>
        (let (returned, rt') = shutdown_runtime (rt\<lparr>metrics := f (metrics rt)\<rparr>);
             st' = st\<lparr>metrics_runtime := None, retired_runtime := Some rt'\<rparr>
         in if returned then Exit r st' else Hang st'))"

definition set_ws_connected :: "f64 \<Rightarrow> FrontfillMetrics \<Rightarrow> FrontfillMetrics" where
  "set_ws_connected v m = m\<lparr>ws_connected := v\<rparr>"

definition call_sink ::
  "(('h, 'p) dyn_sink \<times> 'w, unit) io \<Rightarrow> ('w, 'h, 'p) ff_state \<Rightarrow> unit rs \<times> ('w, 'h, 'p) ff_state" where
  "call_sink m st =
     (let (r, (s', w')) = m (storage st, world st) in (r, st\<lparr>storage := s', world := w'\<rparr>))"

definition run_start ::
  "('w, 'f, 'h, 'p, 'rec, 'r, 'addr, 'l) ff_env \<Rightarrow> FrontfillConfig \<Rightarrow>
     ('w, ('w, 'h, 'p) ff_state) io" where
  "run_start E cfg =
     (if flush_blocks cfg = 0 then io_fail ''flush-blocks must be greater than 0''
      else
        io_bind (io_rs (build_storage (env_kafka_feature E) (env_kafka E) (sink cfg))) (\<lambda>st.
          io_bind (if metrics_enabled cfg
                   then io_bind (start_metrics_runtime (env_metrics E) (metrics_bind cfg) (metrics_port cfg))
                          (\<lambda>rt. io_return (Some rt))
                   else io_return None) (\<lambda>runtime. \<lambda>w.
            (Ok (with_metrics (set_ws_connected 0)
               \<lparr>storage = st, world = w, metrics_runtime = runtime, retired_runtime = None,
                next_rotation_block = None, reconnect_attempt = 0, sleeps = []\<rparr>), w))))"

section \<open>Connecting\<close>

definition back_off :: "('w, 'h, 'p) ff_state \<Rightarrow> ('w, 'h, 'p) ff_state" where
  "back_off st = st\<lparr>sleeps := sleeps st @ [reconnect_delay (reconnect_attempt st)],
     reconnect_attempt := saturating_add (reconnect_attempt st) 1\<rparr>"

definition connect_step ::
  "FrontfillConfig \<Rightarrow> bool \<Rightarrow> ('w, 'h, 'p) ff_state \<Rightarrow> phase \<times> ('w, 'h, 'p) ff_state" where
  "connect_step cfg up st =
     (case build_ws_connect (rpc_url cfg) (rpc_auth_key cfg) (rpc_auth_header cfg) (rpc_auth_scheme cfg) of
        Ok ws \<Rightarrow> if up then (Subscribing, st) else (Connecting, back_off st)
      | Err e \<Rightarrow> (Exited (Err e), st)
      | Panic \<Rightarrow> (Exited Panic, st))"

definition subscribe_step ::
  "('w, 'f, 'h, 'p, 'rec, 'r, 'addr, 'l) ff_env \<Rightarrow> FrontfillConfig \<Rightarrow> bool \<Rightarrow>
     ('w, 'h, 'p) ff_state \<Rightarrow> phase \<times> ('w, 'h, 'p) ff_state" where
  "subscribe_step E cfg subscribed st =
     (case build_filter (env_address_from_str E) (start_block cfg) of
        Ok log_filter \<Rightarrow>
          if subscribed
          then (Streaming, with_metrics (set_ws_connected 1) (st\<lparr>reconnect_attempt := 0\<rparr>))
          else (Connecting, back_off st)
      | Err e \<Rightarrow> (Exited (Err e), st)
      | Panic \<Rightarrow> (Exited Panic, st))"

definition stream_end_step :: "('w, 'h, 'p) ff_state \<Rightarrow> phase \<times> ('w, 'h, 'p) ff_state" where
  "stream_end_step st = (Connecting, back_off (with_metrics (set_ws_connected 0) st))"

section \<open>Handling a log\<close>

definition missing_metadata ::
  "string \<Rightarrow> ('w, 'h, 'p) ff_state \<Rightarrow> ('w, 'h, 'p) ff_state flow" where
  "missing_metadata field st =
     retire_and_exit (set_ws_connected 0) (Err (''frontfill received log missing '' @ field))
       (with_metrics (\<lambda>m. m\<lparr>missing_metadata_total := missing_metadata_total m + 1\<rparr>) st)"

definition rotate_if_due ::
  "('w, 'f, 'h, 'p, 'rec, 'r, 'addr, 'l) ff_env \<Rightarrow> FrontfillConfig \<Rightarrow> u64 \<Rightarrow>
     ('w, 'h, 'p) ff_state \<Rightarrow> ('w, 'h, 'p) ff_state flow" where
  "rotate_if_due E cfg b st = (case next_rotation_block st of
      Some target_block \<Rightarrow>
        if target_block \<le> b then
          (case call_sink (sink_rotate (env_parquet E)) st of
             (Ok _, st1) \<Rightarrow>
               Go ((with_metrics (\<lambda>m. m\<lparr>rotate_total := rotate_total m + 1\<rparr>) st1)
                 \<lparr>next_rotation_block := Some (saturating_add b (flush_blocks cfg))\<rparr>)
           | (Err e, st1) \<Rightarrow> Exit (Err e) st1
           | (Panic, st1) \<Rightarrow> Exit Panic st1)
        else Go st
    | None \<Rightarrow> Go (st\<lparr>next_rotation_block := Some (saturating_add b (flush_blocks cfg))\<rparr>))"

definition count_write :: "FrontfillMetrics \<Rightarrow> FrontfillMetrics" where
  "count_write m = m\<lparr>sink_write_seconds := sink_write_seconds m + 1\<rparr>"

definition decode_and_write ::
  "('w, 'f, 'h, 'p, 'rec, 'r, 'addr, 'l) ff_env \<Rightarrow> Log \<Rightarrow> u64 \<Rightarrow> string \<Rightarrow> u64 \<Rightarrow> clock \<Rightarrow>
     ('w, 'h, 'p) ff_state \<Rightarrow> ('w, 'h, 'p) ff_state flow" where
  "decode_and_write E lg b tx i ck st = (case decode_log (env_alloy E) lg of
      Err e \<Rightarrow>
        retire_and_exit (set_ws_connected 0) (Err e)
          (with_metrics (\<lambda>m. m\<lparr>decode_errors_total := decode_errors_total m + 1\<rparr>) st)
    | Panic \<Rightarrow> Exit Panic st
    | Ok None \<Rightarrow> Go st
    | Ok (Some decoded) \<Rightarrow>
        (let st = with_metrics (observe_decoded_type (env_order E) ck (event_type decoded)) st
         in case call_sink (sink_write_event (env_parquet E) (env_kafka E)
                (event_type decoded) b tx i (columns decoded)) st of
              (Ok _, st1) \<Rightarrow> Go (with_metrics count_write st1)
            | (Err e, st1) \<Rightarrow>
                retire_and_exit (set_ws_connected 0) (Err e)
                  (with_metrics count_write
                    (with_metrics (\<lambda>m. m\<lparr>write_errors_total := write_errors_total m + 1\<rparr>) st1))
            | (Panic, st1) \<Rightarrow> Exit Panic (with_metrics count_write st1)))"

text \<open>The clock readings of \<open>observe_log\<close> and of \<open>observe_decoded_type\<close> come with the log.\<close>

definition handle_log ::
  "('w, 'f, 'h, 'p, 'rec, 'r, 'addr, 'l) ff_env \<Rightarrow> FrontfillConfig \<Rightarrow> Log \<Rightarrow> clock \<Rightarrow> clock \<Rightarrow>
     ('w, 'h, 'p) ff_state \<Rightarrow> ('w, 'h, 'p) ff_state flow" where
  "handle_log E cfg lg ck ck' st = (case block_number lg of
      None \<Rightarrow> missing_metadata ''block_number'' st
    | Some b \<Rightarrow> (case transaction_hash lg of
          None \<Rightarrow> missing_metadata ''transaction_hash'' st
        | Some tx \<Rightarrow> (case log_index lg of
              None \<Rightarrow> missing_metadata ''log_index'' st
            | Some i \<Rightarrow>
                bind_flow (rotate_if_due E cfg b (with_metrics (observe_log (env_order E) ck b) st))
                  (decode_and_write E lg b (b256_to_string (env_alloy E) tx) i ck'))))"

section \<open>Shutdown\<close>

definition shutdown_metrics :: "FrontfillMetrics \<Rightarrow> FrontfillMetrics" where
  "shutdown_metrics m = m\<lparr>shutdown_total := shutdown_total m + 1, ws_connected := 0\<rparr>"

definition handle_ctrl_c ::
  "('w, 'f, 'h, 'p, 'rec, 'r, 'addr, 'l) ff_env \<Rightarrow> unit rs \<Rightarrow> ('w, 'h, 'p) ff_state \<Rightarrow>
     ('w, 'h, 'p) ff_state flow" where
  "handle_ctrl_c E signal st = (case signal of
      Ok _ \<Rightarrow>
        (case call_sink (sink_close (env_parquet E)) st of
           (Ok _, st1) \<Rightarrow> retire_and_exit shutdown_metrics (Ok ()) st1
         | (Err e, st1) \<Rightarrow> Exit (Err e) st1
         | (Panic, st1) \<Rightarrow> Exit Panic st1)
    | Err e \<Rightarrow> Exit (Err e) st
    | Panic \<Rightarrow> Exit Panic st)"

section \<open>The machine\<close>

datatype ff_input =
    Connect_result bool
  | Subscribe_result bool
  | Next_log Log clock clock
  | Stream_end
  | Ctrl_c "unit rs"
  | Rate_tick int

fun phase_after :: "'s flow \<Rightarrow> phase \<times> 's" where
  "phase_after (Go s) = (Streaming, s)"
| "phase_after (Exit r s) = (Exited r, s)"
| "phase_after (Hang s) = (Hung, s)"

definition active :: "phase \<Rightarrow> bool" where
  "active ph \<longleftrightarrow> ph = Connecting \<or> ph = Subscribing \<or> ph = Streaming"

inductive ff_step ::
  "('w, 'f, 'h, 'p, 'rec, 'r, 'addr, 'l) ff_env \<Rightarrow> FrontfillConfig \<Rightarrow> ff_input \<Rightarrow>
     phase \<times> ('w, 'h, 'p) ff_state \<Rightarrow> phase \<times> ('w, 'h, 'p) ff_state \<Rightarrow> bool"
  for E cfg where
  step_connect: "ff_step E cfg (Connect_result ok) (Connecting, st) (connect_step cfg ok st)"
| step_subscribe: "ff_step E cfg (Subscribe_result ok) (Subscribing, st) (subscribe_step E cfg ok st)"
| step_log: "ff_step E cfg (Next_log lg ck ck') (Streaming, st)
    (phase_after (handle_log E cfg lg ck ck' st))"
| step_end: "ff_step E cfg Stream_end (Streaming, st) (stream_end_step st)"
| step_ctrl_c: "ff_step E cfg (Ctrl_c r) (Streaming, st) (phase_after (handle_ctrl_c E r st))"
| step_tick: "active ph \<Longrightarrow>
    ff_step E cfg (Rate_tick now) (ph, st) (ph, with_metrics (rate_tick (env_order E) now) st)"

inductive ff_run ::
  "('w, 'f, 'h, 'p, 'rec, 'r, 'addr, 'l) ff_env \<Rightarrow> FrontfillConfig \<Rightarrow> 'w \<Rightarrow> ff_input list \<Rightarrow>
     phase \<times> ('w, 'h, 'p) ff_state \<Rightarrow> bool"
  for E cfg w where
  run_begin: "run_start E cfg w = (Ok st, w') \<Longrightarrow> ff_run E cfg w [] (Connecting, st)"
| run_step: "ff_run E cfg w inputs c \<Longrightarrow> ff_step E cfg inp c c' \<Longrightarrow> ff_run E cfg w (inputs @ [inp]) c'"

inductive_cases ff_step_exited: "ff_step E cfg inp (Exited r, st) c"
inductive_cases ff_step_hung: "ff_step E cfg inp (Hung, st) c"
inductive_simps ff_step_connecting: "ff_step E cfg inp (Connecting, st) c"
inductive_simps ff_step_subscribing: "ff_step E cfg inp (Subscribing, st) c"
inductive_simps ff_step_streaming: "ff_step E cfg inp (Streaming, st) c"

section \<open>Frame lemmas\<close>

lemma with_metrics_fields [simp]:
  "storage (with_metrics f st) = storage st" "world (with_metrics f st) = world st"
  "retired_runtime (with_metrics f st) = retired_runtime st"
  "next_rotation_block (with_metrics f st) = next_rotation_block st"
  "reconnect_attempt (with_metrics f st) = reconnect_attempt st"
  "sleeps (with_metrics f st) = sleeps st"
  "metrics_runtime (with_metrics f st)
     = map_option (\<lambda>rt. rt\<lparr>metrics := f (metrics rt)\<rparr>) (metrics_runtime st)"
  by (simp_all add: with_metrics_def)

lemma call_sink_fields:
  assumes "call_sink m st = (r, st')"
  shows "m (storage st, world st) = (r, (storage st', world st'))"
    and "metrics_runtime st' = metrics_runtime st" "retired_runtime st' = retired_runtime st"
    and "next_rotation_block st' = next_rotation_block st"
    and "reconnect_attempt st' = reconnect_attempt st" "sleeps st' = sleeps st"
  using assms by (auto simp: call_sink_def split: prod.splits)

fun flow_state :: "'s flow \<Rightarrow> 's" where
  "flow_state (Go s) = s"
| "flow_state (Exit r s) = s"
| "flow_state (Hang s) = s"

lemma snd_phase_after [simp]: "snd (phase_after fl) = flow_state fl"
  by (cases fl) simp_all

text \<open>The runtime of a running process: both tasks are up and can be told to stop.\<close>

definition handles_ok :: "bool \<Rightarrow> ('w, 'h, 'p) ff_state \<Rightarrow> bool" where
  "handles_ok drains st \<longleftrightarrow> (\<forall>rt. metrics_runtime st = Some rt \<longrightarrow>
     server_handle rt = spawned drains \<and> rate_handle rt = spawned True)"

lemma handles_ok_with_metrics [simp]: "handles_ok drains (with_metrics f st) = handles_ok drains st"
  by (cases "metrics_runtime st") (auto simp: handles_ok_def)

lemma handles_ok_cong:
  "metrics_runtime st' = metrics_runtime st \<Longrightarrow> handles_ok drains st' = handles_ok drains st"
  by (simp add: handles_ok_def)

text \<open>
  Retiring a running process hangs exactly when there is a server whose connections do not drain; either
  way the retired metrics had the last update and the rate updater has ended.
\<close>

lemma retire_and_exit_ok:
  assumes "handles_ok drains st"
  obtains st' where "retire_and_exit f r st
      = (if metrics_runtime st = None \<or> drains then Exit r st' else Hang st')"
    and "metrics_runtime st' = None" and "storage st' = storage st" and "world st' = world st"
    and "next_rotation_block st' = next_rotation_block st"
    and "reconnect_attempt st' = reconnect_attempt st" and "sleeps st' = sleeps st"
    and "map_option metrics (retired_runtime st') = (case metrics_runtime st of
        None \<Rightarrow> map_option metrics (retired_runtime st) | Some rt \<Rightarrow> Some (f (metrics rt)))"
    and "\<And>rt. metrics_runtime st \<noteq> None \<Longrightarrow> retired_runtime st' = Some rt \<Longrightarrow>
      task_running (server_handle rt) = (\<not> drains) \<and> \<not> task_running (rate_handle rt)"
proof (cases "metrics_runtime st")
  case None
  then show thesis by (intro that [of st]) (simp_all add: retire_and_exit_def)
next
  case (Some rt)
  from assms Some have "server_handle rt = spawned drains" "rate_handle rt = spawned True"
    by (simp_all add: handles_ok_def)
  then obtain rt' where "shutdown_runtime (rt\<lparr>metrics := f (metrics rt)\<rparr>) = (drains, rt')"
    and "metrics rt' = f (metrics rt)"
    and "task_running (server_handle rt') = (\<not> drains)" "\<not> task_running (rate_handle rt')"
    using shutdown_spawned [of "rt\<lparr>metrics := f (metrics rt)\<rparr>" drains] by auto
  with Some show thesis
    by (intro that [of "st\<lparr>metrics_runtime := None, retired_runtime := Some rt'\<rparr>"])
      (simp_all add: retire_and_exit_def)
qed

text \<open>What an iteration keeps: the reconnection state.\<close>

definition same_loop :: "('w, 'h, 'p) ff_state \<Rightarrow> ('w, 'h, 'p) ff_state \<Rightarrow> bool" where
  "same_loop st st' \<longleftrightarrow> sleeps st' = sleeps st \<and> reconnect_attempt st' = reconnect_attempt st"

lemma same_loop_retire: "same_loop st (flow_state (retire_and_exit f r st))"
  by (auto simp: same_loop_def retire_and_exit_def Let_def split: option.split prod.split)

lemma same_loop_trans: "same_loop a b \<Longrightarrow> same_loop b c \<Longrightarrow> same_loop a c"
  by (simp add: same_loop_def)

lemma same_loop_with_metrics [simp]: "same_loop st (with_metrics f st)"
  by (simp add: same_loop_def)

lemma same_loop_with_metrics_iff [simp]: "same_loop (with_metrics f st) st' = same_loop st st'"
  by (simp add: same_loop_def)

lemma same_loop_call: "call_sink m st = (r, st') \<Longrightarrow> same_loop st st'"
  by (auto simp: same_loop_def dest: call_sink_fields)

lemma same_loop_rotate: "same_loop st (flow_state (rotate_if_due E cfg b st))"
  by (auto simp: rotate_if_due_def same_loop_def split: option.split prod.split rs.split unit.split
      dest: call_sink_fields)

lemma same_loop_write: "same_loop st (flow_state (decode_and_write E lg b tx i ck st))"
proof -
  have "same_loop st (flow_state (retire_and_exit f r (with_metrics g st')))"
    if "same_loop st st'" for f r g st'
    using same_loop_trans [OF that same_loop_trans [OF same_loop_with_metrics same_loop_retire]] .
  moreover have "same_loop st st'" if "call_sink m (with_metrics f st) = (r, st')" for m f r st'
    using same_loop_call [OF that] by simp
  ultimately show ?thesis
    by (auto simp: decode_and_write_def Let_def split: option.split prod.split rs.split unit.split)
      (simp_all add: same_loop_def)
qed

lemma same_loop_log: "same_loop st (flow_state (handle_log E cfg lg ck ck' st))"
proof -
  have bind: "same_loop st (flow_state (bind_flow fl k))"
    if "same_loop st (flow_state fl)" "\<And>s. same_loop s (flow_state (k s))" for fl k
    using that by (cases fl) (auto intro: same_loop_trans)
  have missing: "same_loop st (flow_state (missing_metadata field st))" for field
    unfolding missing_metadata_def
    by (rule same_loop_trans [OF same_loop_with_metrics same_loop_retire])
  have rot: "same_loop st (flow_state (rotate_if_due E cfg b (with_metrics f st)))" for b f
    by (rule same_loop_trans [OF same_loop_with_metrics same_loop_rotate])
  show ?thesis
    unfolding handle_log_def
    by (auto split: option.split intro: bind missing rot same_loop_write)
qed

section \<open>Reconnection\<close>

lemma unat_reconnect_delay: "unat (reconnect_delay a) = 2 ^ min (unat a) 5"
proof -
  have "unat (min a 5) = min (unat a) 5"
    by (auto simp: min_def word_le_nat_alt)
  moreover have "unat (push_bit n (1 :: u64)) = 2 ^ n" if "n \<le> 5" for n
  proof -
    have "n = 0 \<or> n = 1 \<or> n = 2 \<or> n = 3 \<or> n = 4 \<or> n = 5" using that by auto
    then show ?thesis by (elim disjE) simp_all
  qed
  ultimately show ?thesis by (simp add: reconnect_delay_def)
qed

text \<open>
  The seconds slept for a sequence of inputs: each failed attempt and each end of a stream sleeps
  twice as long as the one before it, up to 32 seconds, and a subscription starts again at 1.
\<close>

fun backoff_schedule :: "nat \<Rightarrow> ff_input list \<Rightarrow> nat list" where
  "backoff_schedule a [] = []"
| "backoff_schedule a (Connect_result up # inputs) =
     (if up then backoff_schedule a inputs else 2 ^ min a 5 # backoff_schedule (a + 1) inputs)"
| "backoff_schedule a (Subscribe_result up # inputs) =
     (if up then backoff_schedule 0 inputs else 2 ^ min a 5 # backoff_schedule (a + 1) inputs)"
| "backoff_schedule a (Stream_end # inputs) = 2 ^ min a 5 # backoff_schedule (a + 1) inputs"
| "backoff_schedule a (_ # inputs) = backoff_schedule a inputs"

fun attempts_after :: "nat \<Rightarrow> ff_input list \<Rightarrow> nat" where
  "attempts_after a [] = a"
| "attempts_after a (Connect_result up # inputs) = attempts_after (if up then a else a + 1) inputs"
| "attempts_after a (Subscribe_result up # inputs) = attempts_after (if up then 0 else a + 1) inputs"
| "attempts_after a (Stream_end # inputs) = attempts_after (a + 1) inputs"
| "attempts_after a (_ # inputs) = attempts_after a inputs"

lemma backoff_schedule_append:
  "backoff_schedule a (xs @ ys) = backoff_schedule a xs @ backoff_schedule (attempts_after a xs) ys"
  by (induction a xs rule: backoff_schedule.induct) auto

lemma attempts_after_append: "attempts_after a (xs @ ys) = attempts_after (attempts_after a xs) ys"
  by (induction a xs rule: attempts_after.induct) auto

lemma back_off_fields:
  "map unat (sleeps (back_off st)) = map unat (sleeps st) @ [2 ^ min (unat (reconnect_attempt st)) 5]"
  "unat (reconnect_attempt (back_off st)) = min (unat (reconnect_attempt st) + 1) (2 ^ 32 - 1)"
  "metrics_runtime (back_off st) = metrics_runtime st" "storage (back_off st) = storage st"
  "world (back_off st) = world st" "next_rotation_block (back_off st) = next_rotation_block st"
  "retired_runtime (back_off st) = retired_runtime st"
  by (simp_all add: back_off_def unat_reconnect_delay u64_simps)

lemma phase_after_Go: "active (fst (phase_after fl)) \<Longrightarrow> fl = Go (snd (phase_after fl))"
  by (cases fl) (simp_all add: active_def)

lemma ff_run_backoff:
  "ff_run E cfg w inputs c \<Longrightarrow> active (fst c) \<Longrightarrow>
    map unat (sleeps (snd c)) = backoff_schedule 0 inputs
    \<and> unat (reconnect_attempt (snd c)) = min (attempts_after 0 inputs) (2 ^ 32 - 1)"
proof (induction rule: ff_run.induct)
  case (run_begin st w')
  then show ?case
    by (auto simp: run_start_def elim!: io_bind_Ok_elim split: if_splits)
next
  case (run_step inputs c inp c')
  have pre: "active (fst c)" using run_step.hyps(2) by (cases) (simp_all add: active_def)
  note IH = run_step.IH [OF pre]
  from run_step.hyps(2) show ?case
  proof cases
    case (step_connect ok st)
    with run_step.prems IH show ?thesis
      by (auto simp: connect_step_def active_def back_off_fields backoff_schedule_append
          attempts_after_append split: rs.splits if_splits)
  next
    case (step_subscribe ok st)
    with run_step.prems IH show ?thesis
      by (auto simp: subscribe_step_def active_def back_off_fields backoff_schedule_append
          attempts_after_append split: rs.splits if_splits)
  next
    case (step_log lg ck ck' st)
    with IH same_loop_log [of st E cfg lg ck ck'] show ?thesis
      by (simp add: same_loop_def backoff_schedule_append attempts_after_append)
  next
    case (step_end st)
    with IH show ?thesis
      by (simp add: stream_end_step_def back_off_fields backoff_schedule_append attempts_after_append) (simp add: min_def)
  next
    case (step_ctrl_c r st)
    then have "\<not> active (fst c')"
      by (auto simp: handle_ctrl_c_def retire_and_exit_def active_def Let_def split: rs.splits prod.splits
          unit.splits option.splits if_splits)
    with run_step.prems show ?thesis by simp
  next
    case (step_tick ph now st)
    with IH show ?thesis by (simp add: backoff_schedule_append attempts_after_append)
  qed
qed

section \<open>The connection gauge and the metrics runtime\<close>

text \<open>
  While \<open>run\<close> is active the runtime is there exactly when metrics are enabled, both of its tasks are
  up, and the connection gauge says whether logs are streaming. A runtime that was taken to be shut down
  has the gauge at 0 and no updater; its server runs exactly while \<open>run\<close> waits for it in vain.
\<close>

definition gauge_of :: "phase \<Rightarrow> f64" where
  "gauge_of ph = (if ph = Streaming then 1 else 0)"

definition runtime_inv :: "bool \<Rightarrow> FrontfillConfig \<Rightarrow> phase \<Rightarrow> ('w, 'h, 'p) ff_state \<Rightarrow> bool" where
  "runtime_inv drains cfg ph st \<longleftrightarrow>
     handles_ok drains st \<and>
     (metrics_runtime st \<noteq> None) = (metrics_enabled cfg \<and> retired_runtime st = None) \<and>
     (active ph \<longrightarrow> retired_runtime st = None \<and>
        (\<forall>rt. metrics_runtime st = Some rt \<longrightarrow> ws_connected (metrics rt) = gauge_of ph)) \<and>
     (\<forall>rt. retired_runtime st = Some rt \<longrightarrow> metrics_enabled cfg \<and> ws_connected (metrics rt) = 0 \<and>
        \<not> task_running (rate_handle rt) \<and> task_running (server_handle rt) = (ph = Hung)) \<and>
     (ph = Hung \<longrightarrow> \<not> drains \<and> retired_runtime st \<noteq> None) \<and>
     (ph = Exited (Ok ()) \<longrightarrow> metrics_runtime st = None)"

lemma prune_ws [simp]: "ws_connected (prune_and_recalculate_rates iter now m) = ws_connected m"
  by (simp add: prune_and_recalculate_rates_def Let_def)

lemma rates_ws [simp]:
  "ws_connected (observe_decoded_type iter ck et m) = ws_connected m"
  "ws_connected (rate_tick iter now m) = ws_connected m"
  "ws_connected (count_write m) = ws_connected m"
  "ws_connected (set_ws_connected v m) = v"
  "ws_connected (shutdown_metrics m) = 0"
  by (simp_all add: observe_decoded_type_def rate_tick_recalculates count_write_def
      set_ws_connected_def shutdown_metrics_def Let_def)

lemma runtime_inv_with_metrics:
  assumes "runtime_inv drains cfg ph st" and "\<And>m. ws_connected (f m) = ws_connected m"
  shows "runtime_inv drains cfg ph (with_metrics f st)"
  using assms by (auto simp: runtime_inv_def)

lemma runtime_inv_call:
  assumes "runtime_inv drains cfg ph st" and "call_sink m st = (r, st')"
  shows "runtime_inv drains cfg ph st'"
  using assms(1) call_sink_fields [OF assms(2)] by (simp add: runtime_inv_def handles_ok_def)

text \<open>An exit that leaves the runtime up leaves the gauge of the streaming phase.\<close>

definition flow_inv :: "bool \<Rightarrow> FrontfillConfig \<Rightarrow> ('w, 'h, 'p) ff_state flow \<Rightarrow> bool" where
  "flow_inv drains cfg fl \<longleftrightarrow> runtime_inv drains cfg (fst (phase_after fl)) (flow_state fl)
     \<and> (\<forall>r s rt. fl = Exit r s \<longrightarrow> metrics_runtime s = Some rt \<longrightarrow> ws_connected (metrics rt) = 1)"

lemma flow_inv_Go [simp]: "flow_inv drains cfg (Go st) = runtime_inv drains cfg Streaming st"
  by (simp add: flow_inv_def)

lemma flow_inv_exit:
  "runtime_inv drains cfg Streaming st \<Longrightarrow> r \<noteq> Ok () \<Longrightarrow> flow_inv drains cfg (Exit r st)"
  by (auto simp: flow_inv_def runtime_inv_def active_def gauge_of_def)

lemma flow_inv_retire_with:
  assumes inv: "runtime_inv drains cfg Streaming st" and f: "\<And>m. ws_connected (f m) = 0"
  shows "flow_inv drains cfg (retire_and_exit f r st)"
proof -
  from inv have "handles_ok drains st" by (simp add: runtime_inv_def)
  then obtain st' where e: "retire_and_exit f r st
      = (if metrics_runtime st = None \<or> drains then Exit r st' else Hang st')"
    and none: "metrics_runtime st' = None"
    and m: "map_option metrics (retired_runtime st') = (case metrics_runtime st of
        None \<Rightarrow> map_option metrics (retired_runtime st) | Some rt \<Rightarrow> Some (f (metrics rt)))"
    and tasks: "\<And>rt. metrics_runtime st \<noteq> None \<Longrightarrow> retired_runtime st' = Some rt \<Longrightarrow>
      task_running (server_handle rt) = (\<not> drains) \<and> \<not> task_running (rate_handle rt)"
    by (rule retire_and_exit_ok [where f = f and r = r]) blast
  from inv have up: "(metrics_runtime st \<noteq> None) = metrics_enabled cfg" "retired_runtime st = None"
    by (simp_all add: runtime_inv_def active_def)
  show ?thesis
  proof (cases "metrics_runtime st")
    case None
    with m up e none show ?thesis by (simp add: flow_inv_def runtime_inv_def active_def handles_ok_def)
  next
    case (Some rt)
    with m obtain rt' where rt': "retired_runtime st' = Some rt'" "metrics rt' = f (metrics rt)" by auto
    with tasks Some f up(1) e none show ?thesis
      by (auto simp: flow_inv_def runtime_inv_def active_def handles_ok_def)
  qed
qed

lemma runtime_inv_next:
  "runtime_inv drains cfg ph st \<Longrightarrow> runtime_inv drains cfg ph (st\<lparr>next_rotation_block := n\<rparr>)"
  by (simp add: runtime_inv_def handles_ok_def)

lemma flow_inv_rotate:
  assumes "runtime_inv drains cfg Streaming st"
  shows "flow_inv drains cfg (rotate_if_due E cfg b st)"
proof -
  obtain r st1 where c: "call_sink (sink_rotate (env_parquet E)) st = (r, st1)" by fastforce
  note inv1 = runtime_inv_call [OF assms c]
  have inv2: "runtime_inv drains cfg Streaming (with_metrics (\<lambda>m. m\<lparr>rotate_total := rotate_total m + 1\<rparr>) st1)"
    by (rule runtime_inv_with_metrics [OF inv1]) simp
  show ?thesis
    using flow_inv_exit [OF inv1] runtime_inv_next [OF inv2] runtime_inv_next [OF assms] assms
    by (cases r) (simp_all add: rotate_if_due_def c split: option.split unit.split)
qed

lemma flow_inv_retire:
  "runtime_inv drains cfg Streaming st \<Longrightarrow> flow_inv drains cfg (retire_and_exit (set_ws_connected 0) r st)"
  by (rule flow_inv_retire_with) simp_all

lemma flow_inv_write:
  assumes "runtime_inv drains cfg Streaming st"
  shows "flow_inv drains cfg (decode_and_write E lg b tx i ck st)"
proof (cases "decode_log (env_alloy E) lg")
  case (Ok d)
  show ?thesis
  proof (cases d)
    case None
    with Ok assms show ?thesis by (simp add: decode_and_write_def)
  next
    case (Some dec)
    define st0 where "st0 = with_metrics (observe_decoded_type (env_order E) ck (event_type dec)) st"
    have inv0: "runtime_inv drains cfg Streaming st0"
      unfolding st0_def by (rule runtime_inv_with_metrics [OF assms]) simp
    obtain r st1 where c: "call_sink (sink_write_event (env_parquet E) (env_kafka E)
        (event_type dec) b tx i (columns dec)) st0 = (r, st1)" by fastforce
    note inv1 = runtime_inv_call [OF inv0 c]
    have inv2: "runtime_inv drains cfg Streaming (with_metrics count_write st1)"
      by (rule runtime_inv_with_metrics [OF inv1]) simp
    have inv3: "runtime_inv drains cfg Streaming (with_metrics count_write
        (with_metrics (\<lambda>m. m\<lparr>write_errors_total := write_errors_total m + 1\<rparr>) st1))"
      by (intro runtime_inv_with_metrics [OF runtime_inv_with_metrics [OF inv1]]) simp_all
    show ?thesis
      using c inv2 flow_inv_retire [OF inv3] flow_inv_exit [OF inv2] Ok Some
      by (cases r) (simp_all add: decode_and_write_def st0_def [symmetric] split: unit.split)
  qed
next
  case (Err e)
  have "runtime_inv drains cfg Streaming
      (with_metrics (\<lambda>m. m\<lparr>decode_errors_total := decode_errors_total m + 1\<rparr>) st)"
    by (rule runtime_inv_with_metrics [OF assms]) simp
  from flow_inv_retire [OF this] Err show ?thesis by (simp add: decode_and_write_def)
next
  case Panic
  with assms show ?thesis by (auto simp: decode_and_write_def intro: flow_inv_exit)
qed

lemma flow_inv_log:
  assumes "runtime_inv drains cfg Streaming st"
  shows "flow_inv drains cfg (handle_log E cfg lg ck ck' st)"
proof -
  have missing: "flow_inv drains cfg (missing_metadata field st)" for field
    unfolding missing_metadata_def
    by (intro flow_inv_retire runtime_inv_with_metrics [OF assms]) simp
  have "runtime_inv drains cfg Streaming (with_metrics (observe_log (env_order E) ck b) st)" for b
    by (rule runtime_inv_with_metrics [OF assms]) (simp add: observe_log_gauges)
  then have rot: "flow_inv drains cfg (rotate_if_due E cfg b (with_metrics (observe_log (env_order E) ck b) st))"
    for b by (rule flow_inv_rotate)
  have bind: "flow_inv drains cfg (bind_flow fl (decode_and_write E lg b tx i ck'))" if "flow_inv drains cfg fl"
    for fl b tx i
    using that flow_inv_write by (cases fl) simp_all
  show ?thesis
    unfolding handle_log_def by (auto split: option.split intro: missing bind rot)
qed

lemma flow_inv_ctrl_c:
  assumes "runtime_inv drains cfg Streaming st"
  shows "flow_inv drains cfg (handle_ctrl_c E r st)"
proof -
  obtain q st1 where c: "call_sink (sink_close (env_parquet E)) st = (q, st1)" by fastforce
  note inv1 = runtime_inv_call [OF assms c]
  have "flow_inv drains cfg (retire_and_exit shutdown_metrics (Ok ()) st1)"
    by (rule flow_inv_retire_with [OF inv1]) simp
  then show ?thesis
    using flow_inv_exit [OF inv1] flow_inv_exit [OF assms]
    by (cases r; cases q) (simp_all add: handle_ctrl_c_def c split: unit.split)
qed

lemma run_start_fields:
  assumes "run_start E cfg w = (Ok st, w')"
  shows "world st = w'" "next_rotation_block st = None" "sleeps st = []" "reconnect_attempt st = 0"
    and "build_storage (env_kafka_feature E) (env_kafka E) (sink cfg) = Ok (storage st)"
    and "flush_blocks cfg \<noteq> 0" and "runtime_inv (server_drains (env_metrics E)) cfg Connecting st"
proof -
  have "world st = w' \<and> next_rotation_block st = None \<and> sleeps st = [] \<and> reconnect_attempt st = 0
      \<and> build_storage (env_kafka_feature E) (env_kafka E) (sink cfg) = Ok (storage st)
      \<and> flush_blocks cfg \<noteq> 0 \<and> runtime_inv (server_drains (env_metrics E)) cfg Connecting st"
    using assms
    by (auto simp: run_start_def runtime_inv_def active_def handles_ok_def gauge_of_def
        elim!: io_bind_Ok_elim split: if_splits) (erule started_runtime)+
  then show "world st = w'" "next_rotation_block st = None" "sleeps st = []" "reconnect_attempt st = 0"
    and "build_storage (env_kafka_feature E) (env_kafka E) (sink cfg) = Ok (storage st)"
    and "flush_blocks cfg \<noteq> 0" and "runtime_inv (server_drains (env_metrics E)) cfg Connecting st" by simp_all
qed

lemma runtime_inv_back_off:
  "runtime_inv drains cfg ph st \<Longrightarrow> active ph \<Longrightarrow> ph \<noteq> Streaming \<Longrightarrow>
    runtime_inv drains cfg Connecting (back_off st)"
  by (auto simp: runtime_inv_def handles_ok_def active_def gauge_of_def back_off_fields)

lemma ff_run_runtime_inv:
  "ff_run E cfg w inputs c \<Longrightarrow> runtime_inv (server_drains (env_metrics E)) cfg (fst c) (snd c)"
proof (induction rule: ff_run.induct)
  case (run_begin st w')
  then show ?case by (simp add: run_start_fields)
next
  case (run_step inputs c inp c')
  from run_step.hyps(2) show ?case
  proof cases
    case (step_connect ok st)
    with run_step.IH runtime_inv_back_off [of "server_drains (env_metrics E)" cfg Connecting st] show ?thesis
      by (auto simp: connect_step_def active_def runtime_inv_def gauge_of_def split: rs.split)
  next
    case (step_subscribe ok st)
    with run_step.IH runtime_inv_back_off [of "server_drains (env_metrics E)" cfg Subscribing st] show ?thesis
      by (auto simp: subscribe_step_def active_def runtime_inv_def gauge_of_def handles_ok_def
          split: rs.split)
  next
    case (step_log lg ck ck' st)
    with run_step.IH flow_inv_log [of "server_drains (env_metrics E)" cfg st E lg ck ck'] show ?thesis by (simp add: flow_inv_def)
  next
    case (step_end st)
    with run_step.IH have "runtime_inv (server_drains (env_metrics E)) cfg Connecting (with_metrics (set_ws_connected 0) st)"
      by (auto simp: runtime_inv_def active_def gauge_of_def handles_ok_def)
    from runtime_inv_back_off [OF this] step_end show ?thesis by (simp add: stream_end_step_def active_def)
  next
    case (step_ctrl_c r st)
    with run_step.IH flow_inv_ctrl_c [of "server_drains (env_metrics E)" cfg st E r] show ?thesis by (simp add: flow_inv_def)
  next
    case (step_tick ph now st)
    with run_step.IH runtime_inv_with_metrics [of "server_drains (env_metrics E)" cfg ph st] show ?thesis by simp
  qed
qed

section \<open>What an iteration does\<close>

lemma retire_not_Go [simp]: "retire_and_exit f r st \<noteq> Go st'"
  by (simp add: retire_and_exit_def Let_def split: option.split prod.split)

lemma missing_not_Go [simp]: "missing_metadata field st \<noteq> Go st'"
  by (simp add: missing_metadata_def)

lemma retire_Exit_result: "retire_and_exit f r st = Exit r' st' \<Longrightarrow> r' = r"
  by (simp add: retire_and_exit_def Let_def split: option.splits prod.splits if_splits)

lemma retire_sink:
  "storage (flow_state (retire_and_exit f r st)) = storage st"
  "world (flow_state (retire_and_exit f r st)) = world st"
  by (simp_all add: retire_and_exit_def Let_def split: option.split prod.split)

lemma handle_log_Go:
  assumes "handle_log E cfg lg ck ck' st = Go st'"
  obtains b tx i st1 where "block_number lg = Some b" "transaction_hash lg = Some tx"
    and "log_index lg = Some i"
    and "rotate_if_due E cfg b (with_metrics (observe_log (env_order E) ck b) st) = Go st1"
    and "decode_and_write E lg b (b256_to_string (env_alloy E) tx) i ck' st1 = Go st'"
proof -
  have bind: "bind_flow fl k = Go s \<Longrightarrow> \<exists>s1. fl = Go s1 \<and> k s1 = Go s" for fl k and s :: "('a, 'b, 'c) ff_state"
    by (cases fl) simp_all
  from assms show thesis
    by (auto simp: handle_log_def split: option.splits dest!: bind intro: that)
qed

lemma handle_log_not_Ok: "handle_log E cfg lg ck ck' st \<noteq> Exit (Ok ()) st'"
proof -
  have r: "rotate_if_due E cfg b s \<noteq> Exit (Ok ()) st'" for b s
    by (auto simp: rotate_if_due_def split: option.split prod.split rs.split unit.split)
  have w: "decode_and_write E lg b tx i ck' s \<noteq> Exit (Ok ()) st'" for b tx i s
    by (auto simp: decode_and_write_def Let_def dest: retire_Exit_result split: option.split prod.split
        rs.split unit.split)
  have m: "missing_metadata field s \<noteq> Exit (Ok ()) st'" for field s
    by (auto simp: missing_metadata_def dest: retire_Exit_result)
  have b: "bind_flow fl k \<noteq> Exit (Ok ()) st'" if "fl \<noteq> Exit (Ok ()) st'" "\<And>s. k s \<noteq> Exit (Ok ()) st'" for fl k
    using that by (cases fl) auto
  show ?thesis by (simp add: handle_log_def m b r w split: option.split)
qed

section \<open>The rows of the logs\<close>

definition log_rows :: "alloy \<Rightarrow> Log \<Rightarrow> RecordBatch list" where
  "log_rows A lg = (case (decode_log A lg, block_number lg, transaction_hash lg, log_index lg) of
      (Ok (Some d), Some b, Some tx, Some i) \<Rightarrow>
        [row_batch (event_type d) b (b256_to_string A tx) i (columns d)]
    | _ \<Rightarrow> [])"

fun input_logs :: "ff_input \<Rightarrow> Log list" where
  "input_logs (Next_log lg ck ck') = [lg]"
| "input_logs _ = []"

definition logs_of :: "ff_input list \<Rightarrow> Log list" where
  "logs_of inputs = concat (map input_logs inputs)"

definition rows_of :: "alloy \<Rightarrow> ff_input list \<Rightarrow> RecordBatch list" where
  "rows_of A inputs = concat (map (log_rows A) (logs_of inputs))"

lemma logs_of_snoc [simp]: "logs_of (inputs @ [inp]) = logs_of inputs @ input_logs inp"
  by (simp add: logs_of_def)

lemma rows_of_snoc [simp]:
  "rows_of A (inputs @ [inp]) = rows_of A inputs @ concat (map (log_rows A) (input_logs inp))"
  by (simp add: rows_of_def)

lemma plain_event_name: "plain_segment (event_name e)"
  by (cases e) (simp_all add: plain_segment_def)

lemma decoded_plain: "decode_log A lg = Ok (Some d) \<Longrightarrow> plain_segment (event_type d)"
  by (erule decode_log_kind) (simp add: plain_event_name)

section \<open>Running with the Parquet sink\<close>

definition parquet_laws ::
  "('w, 'f, 'h, 'p, 'rec, 'r, 'addr, 'l) ff_env \<Rightarrow> ('w, 'f, 'h) disk_view \<Rightarrow> bool" where
  "parquet_laws E V \<longleftrightarrow> writers_ok (env_parquet E) V \<and> batches_ok (env_parquet E)
     \<and> hash_iter_ok (iter_order (env_parquet E))"

text \<open>
  The state with the Parquet sink: well formed, in a fresh file set, its schemas those of the decoder,
  at most \<open>n\<close> file sets done and \<open>rows\<close> stored.
\<close>

definition parquet_inv ::
  "('w, 'f, 'h) disk_view \<Rightarrow> RecordBatch multiset \<Rightarrow> nat \<Rightarrow> ('w, 'h, 'p) ff_state \<Rightarrow> bool" where
  "parquet_inv V rows n st \<longleftrightarrow> (\<exists>pst. storage st = ParquetSink pst
     \<and> storage_wf V (pst, world st) \<and> file_set_fresh V (pst, world st)
     \<and> schemas_agree cached_names column_schema (pst, world st)
     \<and> unat (file_set_id pst) \<le> n \<and> stored V (pst, world st) = rows)"

lemma parquet_inv_cong:
  "storage st' = storage st \<Longrightarrow> world st' = world st \<Longrightarrow> parquet_inv V rows n st' = parquet_inv V rows n st"
  by (simp add: parquet_inv_def)

lemma parquet_inv_mono: "parquet_inv V rows n st \<Longrightarrow> n \<le> m \<Longrightarrow> parquet_inv V rows m st"
  unfolding parquet_inv_def by (blast intro: le_trans)

lemma call_parquet_rotate:
  assumes "call_sink (sink_rotate P) st = (r, st')" and "storage st = ParquetSink pst"
  obtains pst' where "rotate_writers P (pst, world st) = (r, (pst', world st'))"
    and "storage st' = ParquetSink pst'"
  using call_sink_fields(1) [OF assms(1)] assms(2)
  by (auto simp: sink_rotate_def elim!: dispatch_cases)

lemma call_parquet_write:
  assumes "call_sink (sink_write_event P K et b tx i cols) st = (r, st')"
    and "storage st = ParquetSink pst"
  obtains pst' where "write_event P et b tx i cols (pst, world st) = (r, (pst', world st'))"
    and "storage st' = ParquetSink pst'"
  using call_sink_fields(1) [OF assms(1)] assms(2)
  by (auto simp: sink_write_event_def elim!: dispatch_cases)

lemma call_parquet_close:
  assumes "call_sink (sink_close P) st = (r, st')" and "storage st = ParquetSink pst"
  obtains pst' where "close_writers P (pst, world st) = (r, (pst', world st'))"
    and "storage st' = ParquetSink pst'"
  using call_sink_fields(1) [OF assms(1)] assms(2)
  by (auto simp: sink_close_def elim!: dispatch_cases)

lemma parquet_inv_rotate:
  assumes laws: "parquet_laws E V" and inv: "parquet_inv V rows n st" and n: "n < 2 ^ 64 - 1"
    and go: "rotate_if_due E cfg b st = Go st'"
  shows "parquet_inv V rows (n + 1) st'"
proof (cases "\<exists>t. next_rotation_block st = Some t \<and> t \<le> b")
  case False
  with go have "storage st' = storage st" "world st' = world st"
    by (auto simp: rotate_if_due_def split: option.splits if_splits)
  with inv show ?thesis by (auto simp: parquet_inv_cong [of st' st] intro: parquet_inv_mono)
next
  case True
  then obtain t where t: "next_rotation_block st = Some t" "t \<le> b" by blast
  obtain r st1 where c: "call_sink (sink_rotate (env_parquet E)) st = (r, st1)" by fastforce
  with go t have r: "r = Ok ()" and st': "storage st' = storage st1" "world st' = world st1"
    by (auto simp: rotate_if_due_def split: rs.splits unit.splits)
  from inv obtain pst where pst: "storage st = ParquetSink pst"
    "storage_wf V (pst, world st)" "file_set_fresh V (pst, world st)"
    "schemas_agree cached_names column_schema (pst, world st)"
    "unat (file_set_id pst) \<le> n" "stored V (pst, world st) = rows" by (auto simp: parquet_inv_def)
  obtain pst' where rot: "rotate_writers (env_parquet E) (pst, world st) = (Ok (), (pst', world st1))"
    and st1: "storage st1 = ParquetSink pst'"
    using call_parquet_rotate [OF c pst(1)] r by metis
  note 1 = rotate_writers_Ok [OF rot _ _ pst(2)]
  have "unat (file_set_id pst) < 2 ^ 64 - 1" using pst(5) n by linarith
  then show ?thesis
    using 1 pst laws parquet.rotate_agrees [OF rot pst(4)]
    by (auto simp: parquet_inv_def st' st1 parquet_laws_def u64_simps)
qed

lemma parquet_inv_write:
  assumes laws: "parquet_laws E V" and inv: "parquet_inv V rows n st"
    and lg: "block_number lg = Some b" "transaction_hash lg = Some tx" "log_index lg = Some i"
    and go: "decode_and_write E lg b (b256_to_string (env_alloy E) tx) i ck st = Go st'"
  shows "parquet_inv V (rows + mset (log_rows (env_alloy E) lg)) n st'"
proof (cases "decode_log (env_alloy E) lg")
  case (Ok d)
  show ?thesis
  proof (cases d)
    case None
    with Ok go inv show ?thesis by (simp add: decode_and_write_def log_rows_def)
  next
    case (Some dec)
    define st0 where "st0 = with_metrics (observe_decoded_type (env_order E) ck (event_type dec)) st"
    obtain r st1 where c: "call_sink (sink_write_event (env_parquet E) (env_kafka E)
        (event_type dec) b (b256_to_string (env_alloy E) tx) i (columns dec)) st0 = (r, st1)" by fastforce
    from go Ok Some c have r: "r = Ok ()" and st': "storage st' = storage st1" "world st' = world st1"
      by (auto simp: decode_and_write_def st0_def [symmetric] split: rs.splits unit.splits)
    from inv obtain pst where pst: "storage st0 = ParquetSink pst"
      "storage_wf V (pst, world st0)" "file_set_fresh V (pst, world st0)"
      "schemas_agree cached_names column_schema (pst, world st0)"
      "unat (file_set_id pst) \<le> n" "stored V (pst, world st0) = rows"
      by (auto simp: parquet_inv_def st0_def)
    obtain pst' where w: "write_event (env_parquet E) (event_type dec) b (b256_to_string (env_alloy E) tx) i
        (columns dec) (pst, world st0) = (Ok (), (pst', world st1))"
      and st1: "storage st1 = ParquetSink pst'"
      using call_parquet_write [OF c pst(1)] r by metis
    from Ok Some have d: "decode_log (env_alloy E) lg = Ok (Some dec)" by simp
    note 1 = write_event_Ok [OF w _ _ pst(2,3) decoded_plain [OF d]]
    from laws have "storage_wf V (pst', world st1) \<and> file_set_fresh V (pst', world st1)
        \<and> file_set_id pst' = file_set_id pst \<and> stored V (pst', world st1)
          = rows + {#row_batch (event_type dec) b (b256_to_string (env_alloy E) tx) i (columns dec)#}"
      using 1 pst(6) by (simp add: parquet_laws_def stored_def)
    with pst(5) parquet_ingest.write_decoded_agrees [OF d pst(4) w] show ?thesis
      by (simp add: parquet_inv_def st' st1 log_rows_def d lg)
  qed
qed (use go in \<open>simp_all add: decode_and_write_def\<close>)

lemma parquet_inv_log:
  assumes "parquet_laws E V" and "parquet_inv V rows n st" and "n < 2 ^ 64 - 1"
    and go: "handle_log E cfg lg ck ck' st = Go st'"
  shows "parquet_inv V (rows + mset (log_rows (env_alloy E) lg)) (n + 1) st'"
proof -
  obtain b tx i st1 where lg: "block_number lg = Some b" "transaction_hash lg = Some tx"
    "log_index lg = Some i"
    and rot: "rotate_if_due E cfg b (with_metrics (observe_log (env_order E) ck b) st) = Go st1"
    and wr: "decode_and_write E lg b (b256_to_string (env_alloy E) tx) i ck' st1 = Go st'"
    using go by (rule handle_log_Go)
  have "parquet_inv V rows n (with_metrics (observe_log (env_order E) ck b) st)"
    using assms(2) by (simp add: parquet_inv_def)
  from parquet_inv_rotate [OF assms(1) this assms(3) rot] have "parquet_inv V rows (n + 1) st1" .
  from parquet_inv_write [OF assms(1) this lg wr] show ?thesis .
qed

lemma parquet_inv_back_off [simp]: "parquet_inv V rows n (back_off st) = parquet_inv V rows n st"
  by (simp add: parquet_inv_def back_off_fields)

lemma parquet_inv_with_metrics [simp]:
  "parquet_inv V rows n (with_metrics f st) = parquet_inv V rows n st"
  by (simp add: parquet_inv_def)

lemma parquet_inv_attempt [simp]:
  "parquet_inv V rows n (st\<lparr>reconnect_attempt := a\<rparr>) = parquet_inv V rows n st"
  by (simp add: parquet_inv_def)

lemma ff_step_parquet_inv:
  assumes step: "ff_step E cfg inp c c'" and act: "active (fst c')" and laws: "parquet_laws E V"
    and inv: "parquet_inv V (B + mset (rows_of (env_alloy E) inputs)) (length (logs_of inputs)) (snd c)"
    and n: "length (logs_of (inputs @ [inp])) < 2 ^ 64"
  shows "parquet_inv V (B + mset (rows_of (env_alloy E) (inputs @ [inp]))) (length (logs_of (inputs @ [inp]))) (snd c')"
  using step
proof cases
  case (step_connect ok st)
  with inv show ?thesis by (auto simp: connect_step_def split: rs.split)
next
  case (step_subscribe ok st)
  with inv show ?thesis by (auto simp: subscribe_step_def split: rs.split)
next
  case (step_log lg ck ck' st)
  with act have go: "handle_log E cfg lg ck ck' st = Go (snd c')"
    by (metis fst_conv phase_after_Go)
  have n': "length (logs_of inputs) < 2 ^ 64 - 1" using n step_log by simp
  have "parquet_inv V (B + mset (rows_of (env_alloy E) inputs)) (length (logs_of inputs)) st"
    using inv step_log by simp
  from parquet_inv_log [OF laws this n' go] step_log show ?thesis
    by (simp add: add.assoc del: union_mset_add_mset_left)
next
  case (step_end st)
  with inv show ?thesis by (simp add: stream_end_step_def)
next
  case (step_ctrl_c r st)
  then have "\<not> active (fst c')"
    by (auto simp: handle_ctrl_c_def retire_and_exit_def active_def Let_def split: rs.splits prod.splits
        unit.splits option.splits if_splits)
  with act show ?thesis by simp
next
  case (step_tick ph now st)
  with inv show ?thesis by simp
qed

lemma ff_run_parquet_inv:
  assumes "ff_run E cfg w inputs c" and "active (fst c)"
    and start: "sink cfg = SinkParquet dir" "run_start E cfg w = (Ok st0, w0)"
    and laws: "parquet_laws E V" "file_set_fresh V (ParquetStorage_new dir, w0)"
    and "length (logs_of inputs) < 2 ^ 64"
  shows "parquet_inv V (finished V w0 + mset (rows_of (env_alloy E) inputs)) (length (logs_of inputs)) (snd c)"
  using assms(1,2,7)
proof (induction rule: ff_run.induct)
  case (run_begin st w')
  from run_start_fields [OF run_begin(1)] start have "storage st = ParquetSink (ParquetStorage_new dir)"
    and "world st = w0"
    using run_begin(1) by (simp_all add: build_storage_def)
  then show ?case
    using laws(2) storage_wf_new [of V dir w0] schemas_agree_new [of column_schema dir w0]
    by (simp add: parquet_inv_def rows_of_def logs_of_def) (simp add: ParquetStorage_new_def)
next
  case (run_step inputs c inp c')
  have pre: "active (fst c)" using run_step.hyps(2) by (cases) (simp_all add: active_def)
  have "parquet_inv V (finished V w0 + mset (rows_of (env_alloy E) inputs)) (length (logs_of inputs)) (snd c)"
    using run_step.IH [OF pre] run_step.prems(2) by simp
  from ff_step_parquet_inv [OF run_step.hyps(2) run_step.prems(1) laws(1) this run_step.prems(2)]
  show ?case .
qed

section \<open>Runs without input or output errors\<close>

lemma rotate_if_due_Go:
  assumes laws: "parquet_laws E V" "calls_succeed (env_parquet E) V" and inv: "parquet_inv V rows n st"
  shows "\<exists>st'. rotate_if_due E cfg b st = Go st'"
proof -
  from inv obtain pst where pst: "storage st = ParquetSink pst" "storage_wf V (pst, world st)"
    by (auto simp: parquet_inv_def)
  from close_writers_succeeds [OF laws(2) _ _ pst(2)] laws(1) obtain pst' w' where
    "rotate_writers (env_parquet E) (pst, world st) = (Ok (), (pst', w'))"
    by (auto simp: parquet_laws_def rotate_writers_def io_bind_def next_file_set_def)
  then show ?thesis
    by (simp add: rotate_if_due_def call_sink_def sink_rotate_def dispatch_def pst(1) split: option.split)
qed

lemma decode_and_write_Go:
  assumes laws: "parquet_laws E V" "calls_succeed (env_parquet E) V" and inv: "parquet_inv V rows n st"
    and d: "decode_log (env_alloy E) lg = Ok d"
  shows "\<exists>st'. decode_and_write E lg b tx i ck st = Go st'"
proof (cases d)
  case None
  with d show ?thesis by (simp add: decode_and_write_def)
next
  case (Some dec)
  with d have dec: "decode_log (env_alloy E) lg = Ok (Some dec)" by simp
  from inv obtain pst where pst: "storage st = ParquetSink pst" "storage_wf V (pst, world st)"
    "file_set_fresh V (pst, world st)" "schemas_agree cached_names column_schema (pst, world st)"
    by (auto simp: parquet_inv_def)
  have "\<forall>ns. cached_names (pst, world st) (event_type dec) = Some ns \<longrightarrow>
      ns = expected_schema_names (map fst (columns dec))"
    using parquet_ingest.decoded_matches [OF dec pst(4)] by blast
  from write_event_succeeds [OF laws(2) _ _ pst(2,3) decoded_plain [OF dec] this] laws(1)
  obtain pst' w' where
    "write_event (env_parquet E) (event_type dec) b tx i (columns dec) (pst, world st) = (Ok (), (pst', w'))"
    unfolding parquet_laws_def by blast
  then show ?thesis
    by (simp add: decode_and_write_def dec call_sink_def sink_write_event_def dispatch_def pst(1) Let_def)
qed

lemma handle_log_streams:
  assumes laws: "parquet_laws E V" "calls_succeed (env_parquet E) V" and inv: "parquet_inv V rows n st"
    and n: "n < 2 ^ 64 - 1" and d: "decode_log (env_alloy E) lg = Ok d"
    and lg: "block_number lg = Some b" "transaction_hash lg = Some tx" "log_index lg = Some i"
  shows "\<exists>st'. handle_log E cfg lg ck ck' st = Go st'"
proof -
  have inv0: "parquet_inv V rows n (with_metrics (observe_log (env_order E) ck b) st)"
    using inv by simp
  from rotate_if_due_Go [OF laws inv0] obtain st1 where
    rot: "rotate_if_due E cfg b (with_metrics (observe_log (env_order E) ck b) st) = Go st1" by blast
  from decode_and_write_Go [OF laws parquet_inv_rotate [OF laws(1) inv0 n rot] d] show ?thesis
    by (simp add: handle_log_def lg rot)
qed

lemma handle_ctrl_c_exits:
  assumes laws: "parquet_laws E V" "calls_succeed (env_parquet E) V" and inv: "parquet_inv V rows n st"
    and h: "handles_ok drains st"
  shows "\<exists>st'. handle_ctrl_c E (Ok ()) st
    = (if metrics_runtime st = None \<or> drains then Exit (Ok ()) st' else Hang st')"
proof -
  from inv obtain pst where pst: "storage st = ParquetSink pst" "storage_wf V (pst, world st)"
    by (auto simp: parquet_inv_def)
  from close_writers_succeeds [OF laws(2) _ _ pst(2)] laws(1) obtain pst' w' where
    c: "close_writers (env_parquet E) (pst, world st) = (Ok (), (pst', w'))"
    unfolding parquet_laws_def by blast
  define st1 where "st1 = st\<lparr>storage := ParquetSink pst', world := w'\<rparr>"
  have same: "metrics_runtime st1 = metrics_runtime st" by (simp add: st1_def)
  with h have "handles_ok drains st1" by (simp add: handles_ok_def)
  then obtain st' where "retire_and_exit shutdown_metrics (Ok ()) st1
      = (if metrics_runtime st1 = None \<or> drains then Exit (Ok ()) st' else Hang st')"
    by (rule retire_and_exit_ok)
  with c same show ?thesis
    by (simp add: handle_ctrl_c_def call_sink_def sink_close_def dispatch_def pst(1) st1_def)
qed

text \<open>The exit on Ctrl-C completes every file.\<close>

lemma handle_ctrl_c_finished:
  assumes laws: "parquet_laws E V" and inv: "parquet_inv V rows n st"
    and e: "handle_ctrl_c E r st = Exit (Ok ()) st'"
  shows "finished V (world st') = rows"
proof -
  from e have r: "r = Ok ()" by (auto simp: handle_ctrl_c_def split: rs.splits)
  obtain q st1 where c: "call_sink (sink_close (env_parquet E)) st = (q, st1)" by fastforce
  from e r c have q: "q = Ok ()" and ret: "retire_and_exit shutdown_metrics (Ok ()) st1 = Exit (Ok ()) st'"
    by (auto simp: handle_ctrl_c_def split: rs.splits unit.splits)
  from inv obtain pst where pst: "storage st = ParquetSink pst" "storage_wf V (pst, world st)"
    "stored V (pst, world st) = rows" by (auto simp: parquet_inv_def)
  obtain pst' where "close_writers (env_parquet E) (pst, world st) = (Ok (), (pst', world st1))"
    using call_parquet_close [OF c pst(1)] q by metis
  from close_writers_Ok(2) [OF this _ _ pst(2)] laws pst(3) have "finished V (world st1) = rows"
    by (simp add: parquet_laws_def)
  with ret retire_sink(2) [of shutdown_metrics "Ok ()" st1] show ?thesis by simp
qed

lemma ff_run_snoc:
  assumes "ff_run E cfg w inputs c"
  obtains "inputs = []" | before inp c0 where "inputs = before @ [inp]" "ff_run E cfg w before c0"
    "ff_step E cfg inp c0 c"
  using assms by (cases rule: ff_run.cases) auto

text \<open>\<open>run\<close> returns \<open>Ok\<close> only on Ctrl-C.\<close>

lemma ff_run_exit_Ok:
  assumes "ff_run E cfg w inputs (Exited (Ok ()), st)"
  obtains before r st0 where "inputs = before @ [Ctrl_c r]" "ff_run E cfg w before (Streaming, st0)"
    and "handle_ctrl_c E r st0 = Exit (Ok ()) st"
  using assms
proof (cases rule: ff_run.cases)
  case (run_step before c inp)
  have fl: "fl = Exit (Ok ()) st" if "phase_after fl = (Exited (Ok ()), st)" for fl
    using that by (cases fl) simp_all
  from run_step(3) show thesis
  proof cases
    case (step_log lg ck ck' s)
    with fl [of "handle_log E cfg lg ck ck' s"] handle_log_not_Ok [of E cfg lg ck ck' s st]
    show thesis by simp
  next
    case (step_ctrl_c r s)
    with run_step fl [of "handle_ctrl_c E r s"] show thesis by (intro that) simp_all
  qed (auto simp: connect_step_def subscribe_step_def stream_end_step_def active_def
      split: rs.splits if_splits)
qed

section \<open>A concrete environment\<close>

text \<open>
  The in-memory file system, the sample decoder, metrics enabled on free ports; the Kafka library is
  never reached.
\<close>

definition no_kafka :: "('w, unit, unit) kafka_api" where
  "no_kafka = \<lparr>json_to_string = (\<lambda>j. []), parse_str = (\<lambda>s. Err ''no parser''),
     record_new = (\<lambda>schema. None), record_put = (\<lambda>n v r. r), avro_encode = (\<lambda>schema r. Err ''no encoder''),
     create_producer = (\<lambda>settings. Err ''no broker''), send_record = (\<lambda>p t b k w. (Err ''no broker'', w))\<rparr>"

definition sample_env ::
  "(memory, string, nat, unit, unit, metric_desc list, string, unit) ff_env" where
  "sample_env = \<lparr>env_alloy = sample_alloy,
     env_address_from_str = (\<lambda>s. case address_literal_value s of
        Some v \<Rightarrow> Ok (word_of_nat v) | None \<Rightarrow> Err ''invalid address''),
     env_parquet = memory_api, env_kafka_feature = False, env_kafka = no_kafka,
     env_metrics = open_env, env_order = (\<lambda>ks. ks)\<rparr>"

definition sample_config :: FrontfillConfig where
  "sample_config = \<lparr>flush_blocks = 10, start_block = None, rpc_url = ''wss://example.invalid'',
     rpc_auth_key = None, rpc_auth_header = ''Authorization'', rpc_auth_scheme = ''Bearer'',
     metrics_enabled = True, metrics_bind = ''127.0.0.1'', metrics_port = 9090,
     sink = SinkParquet ''data''\<rparr>"

definition sample_clock :: clock where
  "sample_clock = \<lparr>system_time = 1700000000000000000, entry_time = 0, prune_time = 0\<rparr>"

lemma sample_laws: "parquet_laws sample_env memory_view" "calls_succeed (env_parquet sample_env) memory_view"
  using memory_api_ok by (simp_all add: parquet_laws_def sample_env_def)

lemma sample_fresh: "file_set_fresh memory_view (ParquetStorage_new dir, memory_start)"
  by (simp add: file_set_fresh_def memory_view_def memory_start_def)

lemma sample_start:
  obtains st0 where "run_start sample_env sample_config memory_start = (Ok st0, memory_start)"
  by (simp add: run_start_def sample_config_def sample_env_def build_storage_def io_bind_def
      start_metrics_runtime_def start_metrics_server_def register_def open_env_def
      metric_descs_def desc_def)

lemma sample_ws_connect:
  "build_ws_connect (rpc_url sample_config) (rpc_auth_key sample_config) (rpc_auth_header sample_config)
     (rpc_auth_scheme sample_config) = Ok \<lparr>ws_url = ''wss://example.invalid'', ws_auth = None\<rparr>"
  by (simp add: build_ws_connect_def build_ws_auth_def sample_config_def)

lemma sample_filter:
  "\<exists>f. build_filter (env_address_from_str sample_env) (start_block sample_config) = Ok f"
  by (simp add: build_filter_def sample_env_def contract_addresses_def contract_literals_value)

text \<open>Connected and subscribed at the first attempt.\<close>

definition connected_inputs :: "ff_input list" where
  "connected_inputs = [Connect_result True, Subscribe_result True]"

lemma sample_streaming:
  obtains st where "ff_run sample_env sample_config memory_start connected_inputs (Streaming, st)"
proof -
  obtain st0 where "run_start sample_env sample_config memory_start = (Ok st0, memory_start)"
    by (rule sample_start)
  then have "ff_run sample_env sample_config memory_start [] (Connecting, st0)" by (rule run_begin)
  from run_step [OF this step_connect [where ok = True]]
  have "ff_run sample_env sample_config memory_start [Connect_result True] (Subscribing, st0)"
    by (simp add: connect_step_def sample_ws_connect)
  from run_step [OF this step_subscribe [where ok = True]] sample_filter
  have "\<exists>st. ff_run sample_env sample_config memory_start connected_inputs (Streaming, st)"
    by (auto simp: subscribe_step_def connected_inputs_def)
  with that show thesis by blast
qed

definition cancelled_log :: Log where
  "cancelled_log = sample_log OrderCancelled [5] 9 0"

lemma cancelled_log_decodes:
  "decode_log sample_alloy cancelled_log
     = Ok (Some \<lparr>event_type = ''OrderCancelled'', columns = [(''order_hash'', ''5'')]\<rparr>)"
  by (simp add: cancelled_log_def decode_log_def topic0_def sample_log_def SIGNATURE_HASH_def
      sample_alloy_def sample_hash_def event_signature_def decode_OrderCancelled_def event_of_def
      render_columns_def value_to_string_def show_nat.simps)

lemma cancelled_log_rows:
  "log_rows sample_alloy cancelled_log = [row_batch ''OrderCancelled'' 9 ''0x9'' 0 [(''order_hash'', ''5'')]]"
  unfolding log_rows_def cancelled_log_decodes
  by (simp add: cancelled_log_def sample_log_def sample_alloy_def show_nat.simps)

lemma sample_env_fields [simp]:
  "env_alloy sample_env = sample_alloy" "sink sample_config = SinkParquet ''data''"
  by (simp_all add: sample_env_def sample_config_def)

lemma sample_inv:
  assumes "ff_run sample_env sample_config memory_start inputs (ph, st)" and "active ph"
    and "length (logs_of inputs) < 2 ^ 64"
  shows "parquet_inv memory_view (mset (rows_of sample_alloy inputs)) (length (logs_of inputs)) st"
proof -
  obtain st0 where s: "run_start sample_env sample_config memory_start = (Ok st0, memory_start)"
    by (rule sample_start)
  from ff_run_parquet_inv [OF assms(1) _ _ s sample_laws(1) sample_fresh assms(3)] assms(2)
  show ?thesis by (simp add: memory_view_def memory_start_def)
qed

definition logged_inputs :: "ff_input list" where
  "logged_inputs = connected_inputs @ [Next_log cancelled_log sample_clock sample_clock]"

lemma sample_logged:
  obtains st where "ff_run sample_env sample_config memory_start logged_inputs (Streaming, st)"
proof -
  obtain st where run: "ff_run sample_env sample_config memory_start connected_inputs (Streaming, st)"
    by (rule sample_streaming)
  have inv: "parquet_inv memory_view {#} 0 st"
    using sample_inv [OF run] by (simp add: active_def connected_inputs_def rows_of_def logs_of_def)
  have "\<exists>st'. handle_log sample_env sample_config cancelled_log sample_clock sample_clock st = Go st'"
    by (rule handle_log_streams [OF sample_laws inv])
      (simp_all add: cancelled_log_decodes, simp_all add: cancelled_log_def sample_log_def)
  then obtain st' where
    go: "handle_log sample_env sample_config cancelled_log sample_clock sample_clock st = Go st'" by blast
  from run_step [OF run step_log [of _ _ cancelled_log sample_clock sample_clock]] go that show thesis
    by (simp add: logged_inputs_def)
qed

section \<open>Properties\<close>

text \<open>The calls of the sink made for a log.\<close>

lemma rotate_if_due_calls:
  assumes "rotate_if_due E cfg b st = Go st'"
  shows "case next_rotation_block st of
      Some t \<Rightarrow>
        if t \<le> b
        then sink_rotate (env_parquet E) (storage st, world st) = (Ok (), (storage st', world st'))
          \<and> next_rotation_block st' = Some (saturating_add b (flush_blocks cfg))
        else (storage st', world st') = (storage st, world st) \<and> next_rotation_block st' = Some t
    | None \<Rightarrow> (storage st', world st') = (storage st, world st)
        \<and> next_rotation_block st' = Some (saturating_add b (flush_blocks cfg))"
  using assms
  by (auto simp: rotate_if_due_def dest: call_sink_fields(1)
      split: option.splits if_splits rs.splits prod.splits)

lemma decode_and_write_calls:
  assumes "decode_and_write E lg b tx i ck st = Go st'"
  shows "case decode_log (env_alloy E) lg of
      Ok None \<Rightarrow> (storage st', world st') = (storage st, world st)
    | Ok (Some d) \<Rightarrow> sink_write_event (env_parquet E) (env_kafka E) (event_type d) b tx i (columns d)
          (storage st, world st) = (Ok (), (storage st', world st'))
    | _ \<Rightarrow> False"
    and "next_rotation_block st' = next_rotation_block st"
  using assms
  by (auto simp: decode_and_write_def Let_def dest: call_sink_fields
      split: rs.splits option.splits prod.splits)

lemma saturating_ahead:
  assumes "n \<noteq> 0"
  shows "b < saturating_add b n \<or> saturating_add b n = (- 1 :: u64)"
proof (cases "unat b + unat n < 2 ^ 64")
  case True
  then show ?thesis using assms by (simp add: word_less_nat_alt u64_simps unat_gt_0)
qed (simp add: saturating_add_def)

text \<open>C14. The sink is rotated exactly when a log's block reaches the target. A log that is handled calls
  \<open>rotate\<close> once, before its event is written, when there is a target at or below its block, and otherwise
  not at all; then it writes its event, if it decodes to one, and makes no other call of the sink. The first
  log and a rotating log set the target \<open>flush_blocks\<close> blocks ahead of their own, other logs leave it alone.
  So every log is written into a file set whose target is beyond its block, unless the target is the
  largest block number.\<close>

theorem rotation_schedule:
  assumes "handle_log E cfg lg ck ck' st = Go st'" and "flush_blocks cfg \<noteq> 0"
  shows "\<exists>b tx i t s1. block_number lg = Some b \<and> transaction_hash lg = Some tx \<and> log_index lg = Some i
      \<and> next_rotation_block st' = Some t \<and> (b < t \<or> t = - 1)
      \<and> (case next_rotation_block st of
           Some t0 \<Rightarrow>
             if t0 \<le> b
             then sink_rotate (env_parquet E) (storage st, world st) = (Ok (), s1)
               \<and> t = saturating_add b (flush_blocks cfg)
             else s1 = (storage st, world st) \<and> t = t0
         | None \<Rightarrow> s1 = (storage st, world st) \<and> t = saturating_add b (flush_blocks cfg))
      \<and> (case decode_log (env_alloy E) lg of
           Ok None \<Rightarrow> (storage st', world st') = s1
         | Ok (Some d) \<Rightarrow> sink_write_event (env_parquet E) (env_kafka E) (event_type d) b
               (b256_to_string (env_alloy E) tx) i (columns d) s1 = (Ok (), (storage st', world st'))
         | _ \<Rightarrow> False)"
proof -
  obtain b tx i st1 where lg: "block_number lg = Some b" "transaction_hash lg = Some tx" "log_index lg = Some i"
    and rot: "rotate_if_due E cfg b (with_metrics (observe_log (env_order E) ck b) st) = Go st1"
    and wr: "decode_and_write E lg b (b256_to_string (env_alloy E) tx) i ck' st1 = Go st'"
    using assms(1) by (rule handle_log_Go)
  note calls = rotate_if_due_calls [OF rot, unfolded with_metrics_fields] decode_and_write_calls [OF wr]
  obtain t where t: "next_rotation_block st1 = Some t"
    "case next_rotation_block st of
       Some t0 \<Rightarrow>
         if t0 \<le> b
         then sink_rotate (env_parquet E) (storage st, world st) = (Ok (), (storage st1, world st1))
           \<and> t = saturating_add b (flush_blocks cfg)
         else (storage st1, world st1) = (storage st, world st) \<and> t = t0
     | None \<Rightarrow> (storage st1, world st1) = (storage st, world st) \<and> t = saturating_add b (flush_blocks cfg)"
    using calls(1) by (auto split: option.splits if_splits)
  have "b < t \<or> t = - 1"
    using t(2) saturating_ahead [OF assms(2), of b] by (auto simp: not_le split: option.splits if_splits)
  with lg t calls(2,3) show ?thesis
    by (intro exI [of _ b] exI [of _ tx] exI [of _ i] exI [of _ t] exI [of _ "(storage st1, world st1)"]) simp
qed

theorem rotation_schedule_witness:
  "\<exists>st st'. handle_log sample_env sample_config cancelled_log sample_clock sample_clock st = Go st'
     \<and> next_rotation_block st = Some 9 \<and> next_rotation_block st' = Some 19
     \<and> (\<exists>s1. sink_rotate memory_api (storage st, world st) = (Ok (), s1))"
proof -
  obtain st0 where run: "ff_run sample_env sample_config memory_start connected_inputs (Streaming, st0)"
    by (rule sample_streaming)
  have inv: "parquet_inv memory_view {#} 0 st0"
    using sample_inv [OF run] by (simp add: active_def connected_inputs_def rows_of_def logs_of_def)
  define st where "st = st0\<lparr>next_rotation_block := Some 9\<rparr>"
  have inv': "parquet_inv memory_view {#} 0 st" using inv by (simp add: parquet_inv_def st_def)
  have "\<exists>st'. handle_log sample_env sample_config cancelled_log sample_clock sample_clock st = Go st'"
    by (rule handle_log_streams [OF sample_laws inv'])
      (simp_all add: cancelled_log_decodes, simp_all add: cancelled_log_def sample_log_def)
  then obtain st' where go: "handle_log sample_env sample_config cancelled_log sample_clock sample_clock st = Go st'"
    by blast
  have fields: "block_number cancelled_log = Some 9" "next_rotation_block st = Some 9"
    "flush_blocks sample_config = 10" "env_parquet sample_env = memory_api"
    by (simp_all add: cancelled_log_def sample_log_def st_def sample_config_def sample_env_def)
  have "saturating_add 9 10 = (19 :: u64)" by (simp add: saturating_add_def)
  with rotation_schedule [OF go] have "next_rotation_block st' = Some 19"
    "\<exists>s1. sink_rotate memory_api (storage st, world st) = (Ok (), s1)"
    by (auto simp: fields)
  with go fields(2) show ?thesis by blast
qed

text \<open>C23. Reconnection backs off exponentially: in every run the seconds slept are 1, 2, 4, 8, 16, 32,
  32, ... over consecutive failed connections, failed subscriptions and ended streams, and start again
  at 1 after each successful subscription.\<close>

theorem backoff_is_exponential:
  assumes "ff_run E cfg w inputs (ph, st)" and "active ph"
  shows "map unat (sleeps st) = backoff_schedule 0 inputs"
  using ff_run_backoff [OF assms(1)] assms(2) by simp

lemma sample_failed_connects:
  "ff_run sample_env sample_config memory_start inputs (Connecting, st) \<Longrightarrow>
    \<exists>st'. ff_run sample_env sample_config memory_start (inputs @ replicate n (Connect_result False))
      (Connecting, st')"
proof (induction n arbitrary: inputs st)
  case 0
  then show ?case by auto
next
  case (Suc n)
  from run_step [OF Suc.prems step_connect [where ok = False]]
  have "ff_run sample_env sample_config memory_start (inputs @ [Connect_result False]) (Connecting, back_off st)"
    by (simp add: connect_step_def sample_ws_connect)
  from Suc.IH [OF this] show ?case by simp
qed

theorem backoff_is_exponential_witness:
  "\<exists>st. ff_run sample_env sample_config memory_start (replicate 7 (Connect_result False)) (Connecting, st)
     \<and> map unat (sleeps st) = [1, 2, 4, 8, 16, 32, 32]"
proof -
  obtain st0 where "run_start sample_env sample_config memory_start = (Ok st0, memory_start)"
    by (rule sample_start)
  from sample_failed_connects [OF run_begin [OF this], of 7] obtain st where
    run: "ff_run sample_env sample_config memory_start (replicate 7 (Connect_result False)) (Connecting, st)"
    by auto
  from backoff_is_exponential [OF run] run show ?thesis
    by (intro exI [of _ st]) (simp add: active_def numeral_eq_Suc)
qed

lemma exit_gauge:
  assumes "ff_step E cfg inp (ph0, st0) (Exited r, st)" and inv: "runtime_inv drains cfg ph0 st0"
    and "metrics_runtime st = Some rt"
  shows "active ph0 \<and> ws_connected (metrics rt) = gauge_of ph0"
proof -
  have exit: "fl = Exit r st" if "phase_after fl = (Exited r, st)" for fl
    using that by (cases fl) simp_all
  from assms(1) show ?thesis
  proof cases
    case (step_connect ok)
    with inv assms(3) show ?thesis
      by (auto simp: connect_step_def runtime_inv_def active_def split: rs.splits if_splits)
  next
    case (step_subscribe ok)
    with inv assms(3) show ?thesis
      by (auto simp: subscribe_step_def runtime_inv_def active_def split: rs.splits if_splits)
  next
    case (step_log lg ck ck')
    with flow_inv_log [of drains cfg st0 E lg ck ck'] inv assms(3) exit show ?thesis
      by (auto simp: flow_inv_def active_def gauge_of_def)
  next
    case (step_ctrl_c q)
    with flow_inv_ctrl_c [of drains cfg st0 E q] inv assms(3) exit show ?thesis
      by (auto simp: flow_inv_def active_def gauge_of_def)
  next
    case (step_tick now)
    then show ?thesis by (auto simp: active_def)
  qed (simp_all add: stream_end_step_def)
qed

text \<open>C24. The connection gauge over a whole run. While \<open>run\<close> is active, the metrics runtime is up exactly when
  metrics are enabled and the gauge is 1 exactly while logs are streaming. A return of \<open>Ok\<close> has shut the
  runtime down. A runtime that was shut down has the gauge at 0 and both tasks ended; but where the
  connections of its server do not drain, and only there, \<open>run\<close> waits for the server for ever and does not
  return. An exit that does not shut the runtime down leaves the gauge at what it was in the phase it left: 1 if
  logs were streaming.\<close>

theorem connection_gauge_truthful:
  assumes "ff_run E cfg w inputs (ph, st)"
  shows "(active ph \<longrightarrow> (metrics_runtime st \<noteq> None) = metrics_enabled cfg
        \<and> (\<forall>rt. metrics_runtime st = Some rt \<longrightarrow> ws_connected (metrics rt) = (if ph = Streaming then 1 else 0)))
      \<and> (ph = Exited (Ok ()) \<longrightarrow> metrics_runtime st = None \<and> (retired_runtime st \<noteq> None) = metrics_enabled cfg)
      \<and> (\<forall>rt. retired_runtime st = Some rt \<longrightarrow> ws_connected (metrics rt) = 0
           \<and> \<not> task_running (rate_handle rt) \<and> (task_running (server_handle rt) \<longleftrightarrow> ph = Hung))
      \<and> (ph = Hung \<longrightarrow> metrics_enabled cfg \<and> \<not> server_drains (env_metrics E) \<and> retired_runtime st \<noteq> None)
      \<and> (\<forall>r rt. ph = Exited r \<and> metrics_runtime st = Some rt \<longrightarrow>
           (\<exists>before inp ph0 st0. inputs = before @ [inp] \<and> ff_run E cfg w before (ph0, st0) \<and> active ph0
              \<and> ws_connected (metrics rt) = (if ph0 = Streaming then 1 else 0)))"
    (is "?up \<and> ?returned \<and> ?retired \<and> ?waiting \<and> ?left")
proof -
  note inv = ff_run_runtime_inv [OF assms, unfolded fst_conv snd_conv]
  have "\<exists>before inp ph0 st0. inputs = before @ [inp] \<and> ff_run E cfg w before (ph0, st0) \<and> active ph0
      \<and> ws_connected (metrics rt) = gauge_of ph0"
    if exit: "ph = Exited r" and rt: "metrics_runtime st = Some rt" for r rt
    using assms
  proof (rule ff_run_snoc)
    assume "inputs = []"
    with assms exit show ?thesis by (auto elim: ff_run.cases)
  next
    fix before inp c0
    assume last: "inputs = before @ [inp]" "ff_run E cfg w before c0" "ff_step E cfg inp c0 (ph, st)"
    obtain ph0 st0 where c0: "c0 = (ph0, st0)" by fastforce
    have "active ph0 \<and> ws_connected (metrics rt) = gauge_of ph0"
      using exit_gauge [OF _ _ rt] last(3) ff_run_runtime_inv [OF last(2)] unfolding c0 exit fst_conv snd_conv
      by blast
    with last c0 show ?thesis by blast
  qed
  then have ?left unfolding gauge_of_def by blast
  moreover have ?up ?returned ?retired ?waiting using inv by (auto simp: runtime_inv_def gauge_of_def)
  ultimately show ?thesis by (intro conjI)
qed

theorem connection_gauge_truthful_witness:
  "\<exists>st rt. ff_run sample_env sample_config memory_start connected_inputs (Streaming, st)
     \<and> metrics_runtime st = Some rt \<and> ws_connected (metrics rt) = 1"
proof -
  obtain st where run: "ff_run sample_env sample_config memory_start connected_inputs (Streaming, st)"
    by (rule sample_streaming)
  have "active Streaming \<and> metrics_enabled sample_config" by (simp add: active_def sample_config_def)
  with connection_gauge_truthful [OF run] obtain rt where
    "metrics_runtime st = Some rt" "ws_connected (metrics rt) = 1" by auto
  with run show ?thesis by blast
qed

text \<open>A misconfigured WebSocket authentication never connects: with a non-empty key and a header
  other than \<open>Authorization\<close>, in any case, the first attempt ends \<open>run\<close> with an error, before any
  connection or sleep.\<close>

lemma bad_auth_never_connects:
  assumes "ff_run E cfg w inputs (ph, st)"
    and "rpc_auth_key cfg = Some key" "key \<noteq> []"
    and "\<not> eq_ignore_ascii_case (rpc_auth_header cfg) ''authorization''"
  shows "(ph = Connecting \<or>
        ph = Exited (Err ''frontfill websocket auth supports only the Authorization header''))
      \<and> sleeps st = []"
proof -
  have "build_ws_connect (rpc_url cfg) (rpc_auth_key cfg) (rpc_auth_header cfg) (rpc_auth_scheme cfg)
      = Err ''frontfill websocket auth supports only the Authorization header''"
    using assms(2-4) by (simp add: build_ws_connect_def build_ws_auth_def)
  then have step: "connect_step cfg up s
      = (Exited (Err ''frontfill websocket auth supports only the Authorization header''), s)" for up
    and s :: "('a, 'c, 'd) ff_state"
    by (simp add: connect_step_def)
  have "(fst c = Connecting \<or>
        fst c = Exited (Err ''frontfill websocket auth supports only the Authorization header''))
      \<and> sleeps (snd c) = []" if "ff_run E cfg w inputs c" for c
    using that
  proof (induction rule: ff_run.induct)
    case (run_begin st w')
    then show ?case by (simp add: run_start_fields)
  next
    case (run_step inputs c inp c')
    from run_step.hyps(2) run_step.IH show ?case
      by (cases) (auto simp: step)
  qed
  from this [OF assms(1)] show ?thesis by simp
qed

definition bad_auth_config :: FrontfillConfig where
  "bad_auth_config = sample_config\<lparr>rpc_auth_key := Some ''abc'', rpc_auth_header := ''x-api-key''\<rparr>"

end
