(* ===== verification/Frontfill_Metrics.thy ===== *)
theory Frontfill_Metrics
  imports Frontfill
begin

text \<open>
  The frontfill runtime and its metrics together (\<open>src/src/frontfill.rs\<close>, \<open>src/src/metrics.rs\<close>): what the
  exported counters say about a run, for either sink, and what becomes of the metrics when \<open>run\<close> returns.
  The reference is a ledger computed from the logs received.
\<close>

section \<open>The ledger\<close>

definition decoded_type :: "alloy \<Rightarrow> Log \<Rightarrow> string option" where
  "decoded_type A lg = (case decode_log A lg of Ok (Some d) \<Rightarrow> Some (event_type d) | _ \<Rightarrow> None)"

definition count_type :: "alloy \<Rightarrow> string \<Rightarrow> Log list \<Rightarrow> nat" where
  "count_type A et lgs = length (filter (\<lambda>lg. decoded_type A lg = Some et) lgs)"

definition count_events :: "alloy \<Rightarrow> Log list \<Rightarrow> nat" where
  "count_events A lgs = length (filter (\<lambda>lg. decoded_type A lg \<noteq> None) lgs)"

definition log_blocks :: "Log list \<Rightarrow> u64 list" where
  "log_blocks lgs = List.map_filter block_number lgs"

text \<open>The next rotation target and the number of rotations after a log of a block.\<close>

fun rotation_entry :: "u64 \<Rightarrow> u64 \<Rightarrow> u64 option \<times> nat \<Rightarrow> u64 option \<times> nat" where
  "rotation_entry flush b (None, n) = (Some (saturating_add b flush), n)"
| "rotation_entry flush b (Some t, n) = (if t \<le> b then (Some (saturating_add b flush), n + 1) else (Some t, n))"

definition rotation_ledger :: "u64 \<Rightarrow> Log list \<Rightarrow> u64 option \<times> nat" where
  "rotation_ledger flush lgs = fold (rotation_entry flush) (log_blocks lgs) (None, 0)"

text \<open>The counters agree with the ledger of the logs received; a counter is a \<open>u64\<close> and wraps.\<close>

definition counts_logs :: "alloy \<Rightarrow> u64 \<Rightarrow> Log list \<Rightarrow> FrontfillMetrics \<Rightarrow> bool" where
  "counts_logs A flush lgs m \<longleftrightarrow>
     logs_total m = of_nat (length lgs)
     \<and> current_block_number m = (if log_blocks lgs = [] then 0 else f64_of_u64 (last (log_blocks lgs)))
     \<and> logs_by_type_total m = (\<lambda>et. if count_type A et lgs = 0 then None else Some (of_nat (count_type A et lgs)))
     \<and> sink_write_seconds m = of_nat (count_events A lgs)
     \<and> rotate_total m = of_nat (snd (rotation_ledger flush lgs))"

definition error_counters :: "FrontfillMetrics \<Rightarrow> u64 \<times> u64 \<times> u64" where
  "error_counters m = (missing_metadata_total m, decode_errors_total m, write_errors_total m)"

definition ledger_inv :: "alloy \<Rightarrow> u64 \<Rightarrow> Log list \<Rightarrow> ('w, 'h, 'p) ff_state \<Rightarrow> bool" where
  "ledger_inv A flush lgs st \<longleftrightarrow> next_rotation_block st = fst (rotation_ledger flush lgs)
     \<and> (\<forall>rt. metrics_runtime st = Some rt \<longrightarrow> counts_logs A flush lgs (metrics rt)
          \<and> error_counters (metrics rt) = (0, 0, 0) \<and> shutdown_total (metrics rt) = 0)"

section \<open>The ledger of one more log\<close>

lemma log_blocks_snoc: "block_number lg = Some b \<Longrightarrow> log_blocks (lgs @ [lg]) = log_blocks lgs @ [b]"
  by (simp add: log_blocks_def map_filter_def)

lemma rotation_ledger_snoc:
  "block_number lg = Some b \<Longrightarrow>
    rotation_ledger flush (lgs @ [lg]) = rotation_entry flush b (rotation_ledger flush lgs)"
  by (simp add: rotation_ledger_def log_blocks_snoc)

lemma count_type_snoc:
  "count_type A et (lgs @ [lg]) = count_type A et lgs + (if decoded_type A lg = Some et then 1 else 0)"
  by (simp add: count_type_def)

lemma count_events_snoc:
  "count_events A (lgs @ [lg]) = count_events A lgs + (if decoded_type A lg \<noteq> None then 1 else 0)"
  by (simp add: count_events_def)

lemmas ledger_snoc = log_blocks_snoc rotation_ledger_snoc count_type_snoc count_events_snoc

section \<open>What the updates of the metrics change\<close>

lemma prune_counters [simp]:
  "logs_total (prune_and_recalculate_rates iter now m) = logs_total m"
  "current_block_number (prune_and_recalculate_rates iter now m) = current_block_number m"
  "logs_by_type_total (prune_and_recalculate_rates iter now m) = logs_by_type_total m"
  "sink_write_seconds (prune_and_recalculate_rates iter now m) = sink_write_seconds m"
  "rotate_total (prune_and_recalculate_rates iter now m) = rotate_total m"
  "shutdown_total (prune_and_recalculate_rates iter now m) = shutdown_total m"
  "error_counters (prune_and_recalculate_rates iter now m) = error_counters m"
  by (simp_all add: prune_and_recalculate_rates_def error_counters_def Let_def)

lemma observe_log_counters [simp]:
  "logs_total (observe_log iter ck b m) = logs_total m + 1"
  "current_block_number (observe_log iter ck b m) = f64_of_u64 b"
  "logs_by_type_total (observe_log iter ck b m) = logs_by_type_total m"
  "sink_write_seconds (observe_log iter ck b m) = sink_write_seconds m"
  "rotate_total (observe_log iter ck b m) = rotate_total m"
  "shutdown_total (observe_log iter ck b m) = shutdown_total m"
  "error_counters (observe_log iter ck b m) = error_counters m"
  by (simp_all add: observe_log_def Let_def) (simp add: error_counters_def)

lemma observe_type_counters [simp]:
  "logs_total (observe_decoded_type iter ck et m) = logs_total m"
  "current_block_number (observe_decoded_type iter ck et m) = current_block_number m"
  "logs_by_type_total (observe_decoded_type iter ck et m) = (logs_by_type_total m)
     (et \<mapsto> (case logs_by_type_total m et of None \<Rightarrow> 0 | Some n \<Rightarrow> n) + 1)"
  "sink_write_seconds (observe_decoded_type iter ck et m) = sink_write_seconds m"
  "rotate_total (observe_decoded_type iter ck et m) = rotate_total m"
  "shutdown_total (observe_decoded_type iter ck et m) = shutdown_total m"
  "error_counters (observe_decoded_type iter ck et m) = error_counters m"
  by (simp_all add: observe_decoded_type_def Let_def) (simp add: error_counters_def)

text \<open>An update that touches none of the counters.\<close>

lemma ledger_inv_update:
  assumes "ledger_inv A flush lgs st"
    and "\<And>m. counts_logs A flush lgs (f m) = counts_logs A flush lgs m"
    and "\<And>m. error_counters (f m) = error_counters m" "\<And>m. shutdown_total (f m) = shutdown_total m"
  shows "ledger_inv A flush lgs (with_metrics f st)"
  using assms by (auto simp: ledger_inv_def)

lemma set_ws_counters [simp]:
  "counts_logs A flush lgs (set_ws_connected v m) = counts_logs A flush lgs m"
  "error_counters (set_ws_connected v m) = error_counters m"
  "shutdown_total (set_ws_connected v m) = shutdown_total m"
  by (simp_all add: set_ws_connected_def counts_logs_def error_counters_def)

lemma ledger_inv_cong:
  "metrics_runtime st' = metrics_runtime st \<Longrightarrow> next_rotation_block st' = next_rotation_block st \<Longrightarrow>
    ledger_inv A flush lgs st' = ledger_inv A flush lgs st"
  by (simp add: ledger_inv_def)

section \<open>A handled log\<close>

text \<open>What a log changes up to the decoding: it is counted, and rotates the sink when it is due.\<close>

lemma rotate_ledger:
  assumes "rotate_if_due E cfg b st = Go st'"
    and "next_rotation_block st = fst (rotation_ledger (flush_blocks cfg) lgs)" and "block_number lg = Some b"
  shows "next_rotation_block st' = fst (rotation_ledger (flush_blocks cfg) (lgs @ [lg]))"
    and "metrics_runtime st' = map_option (\<lambda>rt. rt\<lparr>metrics := (metrics rt)\<lparr>rotate_total := rotate_total (metrics rt)
        + of_nat (snd (rotation_ledger (flush_blocks cfg) (lgs @ [lg])) - snd (rotation_ledger (flush_blocks cfg) lgs))\<rparr>\<rparr>)
      (metrics_runtime st)"
proof -
  obtain t n where led: "rotation_ledger (flush_blocks cfg) lgs = (t, n)" by fastforce
  note led' = rotation_ledger_snoc [OF assms(3), of "flush_blocks cfg" lgs, unfolded led]
  have same: "rt\<lparr>metrics := (metrics rt)\<lparr>rotate_total := rotate_total (metrics rt)\<rparr>\<rparr> = rt" for rt by simp
  show "next_rotation_block st' = fst (rotation_ledger (flush_blocks cfg) (lgs @ [lg]))"
    using assms(1,2) led
    by (cases t) (auto simp: rotate_if_due_def led' split: if_splits rs.splits prod.splits)
  show "metrics_runtime st' = map_option (\<lambda>rt. rt\<lparr>metrics := (metrics rt)\<lparr>rotate_total := rotate_total (metrics rt)
      + of_nat (snd (rotation_ledger (flush_blocks cfg) (lgs @ [lg])) - snd (rotation_ledger (flush_blocks cfg) lgs))\<rparr>\<rparr>)
    (metrics_runtime st)"
    using assms(1,2) led
    by (cases t) (auto simp: rotate_if_due_def led' same option.map_ident dest: call_sink_fields
        split: if_splits rs.splits prod.splits)
qed

lemma write_ledger:
  assumes "decode_and_write E lg b tx i ck st = Go st'"
  shows "next_rotation_block st' = next_rotation_block st"
    and "metrics_runtime st' = map_option (\<lambda>rt. rt\<lparr>metrics := (case decoded_type (env_alloy E) lg of
        None \<Rightarrow> metrics rt
      | Some et \<Rightarrow> count_write (observe_decoded_type (env_order E) ck et (metrics rt)))\<rparr>) (metrics_runtime st)"
proof -
  show "next_rotation_block st' = next_rotation_block st"
    using assms
    by (auto simp: decode_and_write_def Let_def dest!: call_sink_fields(4) retire_Exit_result
        split: rs.splits option.splits prod.splits)
  show "metrics_runtime st' = map_option (\<lambda>rt. rt\<lparr>metrics := (case decoded_type (env_alloy E) lg of
        None \<Rightarrow> metrics rt
      | Some et \<Rightarrow> count_write (observe_decoded_type (env_order E) ck et (metrics rt)))\<rparr>) (metrics_runtime st)"
    using assms
    by (auto simp: decode_and_write_def decoded_type_def Let_def option.map_ident option.map_comp comp_def
        dest!: call_sink_fields(2) retire_Exit_result split: rs.splits option.splits prod.splits)
qed

lemma rotation_ledger_mono:
  "block_number lg = Some b \<Longrightarrow> snd (rotation_ledger flush lgs) \<le> snd (rotation_ledger flush (lgs @ [lg]))"
  by (cases "rotation_ledger flush lgs"; cases "fst (rotation_ledger flush lgs)")
    (simp_all add: rotation_ledger_snoc)

text \<open>The metrics after a log, from those before it.\<close>

definition log_metrics ::
  "('w, 'f, 'h, 'p, 'rec, 'r, 'addr, 'l) ff_env \<Rightarrow> u64 \<Rightarrow> Log list \<Rightarrow> Log \<Rightarrow> u64 \<Rightarrow> clock \<Rightarrow> clock \<Rightarrow>
     FrontfillMetrics \<Rightarrow> FrontfillMetrics" where
  "log_metrics E flush lgs lg b ck ck' m =
     (let m = observe_log (env_order E) ck b m;
          m = m\<lparr>rotate_total := rotate_total m
            + of_nat (snd (rotation_ledger flush (lgs @ [lg])) - snd (rotation_ledger flush lgs))\<rparr>
      in case decoded_type (env_alloy E) lg of
           None \<Rightarrow> m
         | Some et \<Rightarrow> count_write (observe_decoded_type (env_order E) ck' et m))"

lemma count_write_counters [simp]:
  "logs_total (count_write m) = logs_total m"
  "current_block_number (count_write m) = current_block_number m"
  "logs_by_type_total (count_write m) = logs_by_type_total m"
  "sink_write_seconds (count_write m) = sink_write_seconds m + 1"
  "rotate_total (count_write m) = rotate_total m"
  "shutdown_total (count_write m) = shutdown_total m"
  "error_counters (count_write m) = error_counters m"
  by (simp_all add: count_write_def error_counters_def)

lemma log_metrics_counts:
  assumes "counts_logs (env_alloy E) flush lgs m" and b: "block_number lg = Some b"
  shows "counts_logs (env_alloy E) flush (lgs @ [lg]) (log_metrics E flush lgs lg b ck ck' m)"
proof -
  have "of_nat (snd (rotation_ledger flush lgs))
      + of_nat (snd (rotation_ledger flush (lgs @ [lg])) - snd (rotation_ledger flush lgs))
      = (of_nat (snd (rotation_ledger flush (lgs @ [lg]))) :: u64)"
    using rotation_ledger_mono [OF b, of flush lgs] by (simp flip: of_nat_add)
  then show ?thesis
    using assms
    by (cases "decoded_type (env_alloy E) lg")
      (simp_all add: counts_logs_def log_metrics_def Let_def log_blocks_snoc count_type_snoc count_events_snoc
        fun_eq_iff ac_simps)
qed

lemma rotate_total_errors [simp]: "error_counters (m\<lparr>rotate_total := n\<rparr>) = error_counters m"
  by (simp add: error_counters_def)

lemma log_metrics_errors:
  "error_counters (log_metrics E flush lgs lg b ck ck' m) = error_counters m"
  "shutdown_total (log_metrics E flush lgs lg b ck ck' m) = shutdown_total m"
  by (simp_all add: log_metrics_def Let_def split: option.split)

lemma handle_log_metrics:
  assumes "handle_log E cfg lg ck ck' st = Go st'"
    and next_eq: "next_rotation_block st = fst (rotation_ledger (flush_blocks cfg) lgs)"
  obtains b where "block_number lg = Some b"
    and "next_rotation_block st' = fst (rotation_ledger (flush_blocks cfg) (lgs @ [lg]))"
    and "metrics_runtime st' = map_option
      (\<lambda>rt. rt\<lparr>metrics := log_metrics E (flush_blocks cfg) lgs lg b ck ck' (metrics rt)\<rparr>) (metrics_runtime st)"
proof -
  from assms(1) obtain b tx i st1 where b: "block_number lg = Some b"
    and rot: "rotate_if_due E cfg b (with_metrics (observe_log (env_order E) ck b) st) = Go st1"
    and wr: "decode_and_write E lg b (b256_to_string (env_alloy E) tx) i ck' st1 = Go st'"
    by (rule handle_log_Go)
  note r = rotate_ledger [OF rot _ b, of lgs]
  show thesis
    using b r write_ledger [OF wr] next_eq
    by (intro that [of b])
      (simp_all add: option.map_comp comp_def log_metrics_def Let_def, cases "metrics_runtime st", simp_all split: option.split)
qed

lemma ledger_inv_log:
  assumes "handle_log E cfg lg ck ck' st = Go st'" and inv: "ledger_inv (env_alloy E) (flush_blocks cfg) lgs st"
  shows "ledger_inv (env_alloy E) (flush_blocks cfg) (lgs @ [lg]) st'"
proof -
  from inv have "next_rotation_block st = fst (rotation_ledger (flush_blocks cfg) lgs)"
    by (simp add: ledger_inv_def)
  from assms(1) this obtain b where b: "block_number lg = Some b"
    and "next_rotation_block st' = fst (rotation_ledger (flush_blocks cfg) (lgs @ [lg]))"
    and "metrics_runtime st' = map_option
      (\<lambda>rt. rt\<lparr>metrics := log_metrics E (flush_blocks cfg) lgs lg b ck ck' (metrics rt)\<rparr>) (metrics_runtime st)"
    by (rule handle_log_metrics)
  with inv log_metrics_counts [OF _ b] show ?thesis by (auto simp: ledger_inv_def log_metrics_errors)
qed

section \<open>Runs\<close>

text \<open>The ledger of a run: while it is active, and in the retired metrics after the shutdown.\<close>

definition run_ledger :: "alloy \<Rightarrow> u64 \<Rightarrow> Log list \<Rightarrow> phase \<Rightarrow> ('w, 'h, 'p) ff_state \<Rightarrow> bool" where
  "run_ledger A flush lgs ph st \<longleftrightarrow> (active ph \<longrightarrow> ledger_inv A flush lgs st)
     \<and> (\<forall>rt. ph = Exited (Ok ()) \<longrightarrow> retired_runtime st = Some rt \<longrightarrow> counts_logs A flush lgs (metrics rt)
          \<and> error_counters (metrics rt) = (0, 0, 0) \<and> shutdown_total (metrics rt) = 1)"

lemma run_ledger_active: "active ph \<Longrightarrow> run_ledger A flush lgs ph st = ledger_inv A flush lgs st"
  by (auto simp: run_ledger_def active_def)

lemma new_metrics_counts:
  "counts_logs A flush [] new_metrics" "error_counters new_metrics = (0, 0, 0)" "shutdown_total new_metrics = 0"
  by (simp_all add: counts_logs_def new_metrics_def log_blocks_def map_filter_def count_type_def count_events_def
      rotation_ledger_def error_counters_def)

lemma ledger_inv_start:
  assumes "run_start E cfg w = (Ok st, w')"
  shows "ledger_inv A flush [] st"
proof -
  have "metrics rt = set_ws_connected 0 new_metrics" if "metrics_runtime st = Some rt" for rt
  proof -
    from assms that obtain z where
      z: "start_metrics_runtime (env_metrics E) (metrics_bind cfg) (metrics_port cfg) w = (Ok z, w')"
      and rt: "rt = z\<lparr>metrics := set_ws_connected 0 (metrics z)\<rparr>"
      by (auto simp: run_start_def split: if_splits elim!: io_bind_Ok_elim)
    show ?thesis by (simp add: rt started_runtime(1) [OF z])
  qed
  moreover have "next_rotation_block st = None"
    using assms by (auto simp: run_start_def split: if_splits elim!: io_bind_Ok_elim)
  ultimately show ?thesis
    by (auto simp: ledger_inv_def new_metrics_counts) (simp_all add: rotation_ledger_def log_blocks_def map_filter_def)
qed

lemma shutdown_counters:
  "counts_logs A flush lgs (shutdown_metrics m) = counts_logs A flush lgs m"
  "error_counters (shutdown_metrics m) = error_counters m"
  "shutdown_total (shutdown_metrics m) = shutdown_total m + 1"
  by (simp_all add: shutdown_metrics_def counts_logs_def error_counters_def)

text \<open>Shutting the runtime of a running process down: its metrics have their last update, and both tasks end,
  but a server whose connections do not drain, for which the process waits for ever.\<close>

lemma retire_down:
  assumes "handles_ok drains st" and "metrics_runtime st = Some rt"
  obtains rt' where "retire_and_exit f r st = (if drains then Exit r else Hang)
      (st\<lparr>metrics_runtime := None, retired_runtime := Some rt'\<rparr>)"
    and "metrics rt' = f (metrics rt)" "task_running (server_handle rt') = (\<not> drains)"
      "\<not> task_running (rate_handle rt')"
proof -
  from assms have "server_handle rt = spawned drains" "rate_handle rt = spawned True" by (simp_all add: handles_ok_def)
  then obtain rt' where "shutdown_runtime (rt\<lparr>metrics := f (metrics rt)\<rparr>) = (drains, rt')"
    and "metrics rt' = f (metrics rt)" "task_running (server_handle rt') = (\<not> drains)"
      "\<not> task_running (rate_handle rt')"
    using shutdown_spawned [of "rt\<lparr>metrics := f (metrics rt)\<rparr>" drains] by auto
  with assms(2) that show thesis by (simp add: retire_and_exit_def)
qed

lemma ctrl_c_ledger:
  assumes exit: "handle_ctrl_c E r st = Exit (Ok ()) st'" and inv: "ledger_inv A flush lgs st"
    and h: "handles_ok drains st" and none: "retired_runtime st = None" and rt: "retired_runtime st' = Some rt"
  shows "counts_logs A flush lgs (metrics rt) \<and> error_counters (metrics rt) = (0, 0, 0)
    \<and> shutdown_total (metrics rt) = 1"
proof -
  from exit obtain st1 where c: "call_sink (sink_close (env_parquet E)) st = (Ok (), st1)"
    and e: "retire_and_exit shutdown_metrics (Ok ()) st1 = Exit (Ok ()) st'"
    by (auto simp: handle_ctrl_c_def split: rs.splits prod.splits)
  note f = call_sink_fields [OF c]
  have h1: "handles_ok drains st1" using h f(2) by (simp add: handles_ok_def)
  show ?thesis
  proof (cases "metrics_runtime st1")
    case None
    with e rt none f(3) show ?thesis by (auto simp: retire_and_exit_def)
  next
    case (Some rt1)
    with inv f(2) have "counts_logs A flush lgs (metrics rt1)" "error_counters (metrics rt1) = (0, 0, 0)"
      "shutdown_total (metrics rt1) = 0" by (simp_all add: ledger_inv_def)
    moreover from h1 Some obtain rt' where
      "retire_and_exit shutdown_metrics (Ok ()) st1
        = (if drains then Exit (Ok ()) else Hang) (st1\<lparr>metrics_runtime := None, retired_runtime := Some rt'\<rparr>)"
      "metrics rt' = shutdown_metrics (metrics rt1)" by (rule retire_down)
    ultimately show ?thesis using e rt by (auto simp: shutdown_counters split: if_splits)
  qed
qed

lemma back_off_ledger: "ledger_inv A flush lgs (back_off st) = ledger_inv A flush lgs st"
  by (rule ledger_inv_cong) (simp_all add: back_off_def)

lemma ff_step_ledger:
  assumes step: "ff_step E cfg inp (ph, st) (ph', st')"
    and inv: "ledger_inv (env_alloy E) (flush_blocks cfg) lgs st"
    and h: "handles_ok drains st" and none: "retired_runtime st = None"
  shows "run_ledger (env_alloy E) (flush_blocks cfg) (lgs @ input_logs inp) ph' st'"
  using step
proof cases
  case (step_connect ok)
  with inv none show ?thesis
    by (auto simp: connect_step_def run_ledger_def back_off_ledger split: rs.splits if_splits)
next
  case (step_subscribe ok)
  have "ledger_inv (env_alloy E) (flush_blocks cfg) lgs (with_metrics (set_ws_connected 1) (st\<lparr>reconnect_attempt := 0\<rparr>))"
    by (rule ledger_inv_update) (use inv in \<open>simp_all add: ledger_inv_def\<close>)
  with step_subscribe inv none show ?thesis
    by (auto simp: subscribe_step_def run_ledger_def back_off_ledger split: rs.splits if_splits)
next
  case (step_log lg ck ck')
  show ?thesis
  proof (cases "handle_log E cfg lg ck ck' st")
    case (Go s)
    with ledger_inv_log [OF Go inv] step_log show ?thesis by (simp add: run_ledger_active active_def)
  next
    case (Exit r s)
    with step_log handle_log_not_Ok [of E cfg lg ck ck' st s] show ?thesis
      by (auto simp: run_ledger_def active_def)
  next
    case (Hang s)
    with step_log show ?thesis by (simp add: run_ledger_def active_def)
  qed
next
  case step_end
  have "ledger_inv (env_alloy E) (flush_blocks cfg) lgs (with_metrics (set_ws_connected 0) st)"
    by (rule ledger_inv_update [OF inv]) simp_all
  with step_end show ?thesis
    by (simp add: stream_end_step_def run_ledger_active active_def back_off_ledger)
next
  case (step_ctrl_c r)
  show ?thesis
  proof (cases "handle_ctrl_c E r st")
    case (Go s)
    then show ?thesis
      by (auto simp: handle_ctrl_c_def retire_and_exit_def Let_def split: rs.splits prod.splits option.splits if_splits)
  next
    case (Exit q s)
    with step_ctrl_c ctrl_c_ledger [of E r st s, OF _ inv h none] show ?thesis
      by (auto simp: run_ledger_def active_def)
  next
    case (Hang s)
    with step_ctrl_c show ?thesis by (simp add: run_ledger_def active_def)
  qed
next
  case (step_tick now)
  have "ledger_inv (env_alloy E) (flush_blocks cfg) lgs (with_metrics (rate_tick (env_order E) now) st)"
    by (rule ledger_inv_update [OF inv]) (simp_all add: rate_tick_recalculates counts_logs_def)
  with step_tick show ?thesis by (simp add: run_ledger_active)
qed

lemma ff_step_from_active: "ff_step E cfg inp (ph, st) c \<Longrightarrow> active ph"
  by (erule ff_step.cases) (simp_all add: active_def)

lemma ff_run_ledger:
  "ff_run E cfg w inputs c \<Longrightarrow>
    run_ledger (env_alloy E) (flush_blocks cfg) (logs_of inputs) (fst c) (snd c)"
proof (induction rule: ff_run.induct)
  case (run_begin st w')
  then show ?case by (simp add: run_ledger_active active_def ledger_inv_start logs_of_def)
next
  case (run_step inputs c inp c')
  obtain ph st ph' st' where c: "c = (ph, st)" "c' = (ph', st')" by fastforce
  have act: "active ph" using ff_step_from_active run_step.hyps(2) c by blast
  from run_step.IH act have "ledger_inv (env_alloy E) (flush_blocks cfg) (logs_of inputs) st"
    by (simp add: c run_ledger_active)
  moreover have "handles_ok (server_drains (env_metrics E)) st" "retired_runtime st = None"
    using ff_run_runtime_inv [OF run_step.hyps(1)] act by (simp_all add: c runtime_inv_def)
  ultimately show ?case using ff_step_ledger run_step.hyps(2) by (simp add: c)
qed

section \<open>Exits on an error\<close>

text \<open>
  The exits of \<open>run\<close> by the operator \<open>?\<close> while logs are streaming: the signal handler or the close fails, or
  the rotation that is due for a log does.
\<close>

fun question_mark_exit ::
  "('w, 'f, 'h, 'p, 'rec, 'r, 'addr, 'l) ff_env \<Rightarrow> FrontfillConfig \<Rightarrow> ff_input \<Rightarrow> ('w, 'h, 'p) ff_state \<Rightarrow> bool" where
  "question_mark_exit E cfg (Next_log lg ck ck') st =
     (case (block_number lg, transaction_hash lg, log_index lg) of
        (Some b, Some tx, Some i) \<Rightarrow>
          (case rotate_if_due E cfg b (with_metrics (observe_log (env_order E) ck b) st) of
             Exit r s \<Rightarrow> True | _ \<Rightarrow> False)
      | _ \<Rightarrow> False)"
| "question_mark_exit E cfg inp st = True"

text \<open>The error counters after an exit that shuts the metrics down.\<close>

fun counted_error :: "alloy \<Rightarrow> ff_input \<Rightarrow> u64 \<times> u64 \<times> u64" where
  "counted_error A (Next_log lg ck ck') =
     (if block_number lg = None \<or> transaction_hash lg = None \<or> log_index lg = None then (1, 0, 0)
      else case decode_log A lg of Err e \<Rightarrow> (0, 1, 0) | _ \<Rightarrow> (0, 0, 1))"
| "counted_error A inp = (0, 0, 0)"

text \<open>A running process with metrics, and the two ways it can be left.\<close>

definition metrics_up :: "('w, 'h, 'p) ff_state \<Rightarrow> bool" where
  "metrics_up st \<longleftrightarrow> retired_runtime st = None \<and> (\<exists>drains. handles_ok drains st)
     \<and> (\<exists>rt. metrics_runtime st = Some rt \<and> ws_connected (metrics rt) = 1 \<and> error_counters (metrics rt) = (0, 0, 0))"

definition metrics_down :: "u64 \<times> u64 \<times> u64 \<Rightarrow> ('w, 'h, 'p) ff_state \<Rightarrow> bool" where
  "metrics_down counts st \<longleftrightarrow> metrics_runtime st = None
     \<and> (\<exists>rt. retired_runtime st = Some rt \<and> ws_connected (metrics rt) = 0
          \<and> \<not> task_running (server_handle rt) \<and> \<not> task_running (rate_handle rt)
          \<and> error_counters (metrics rt) = counts)"

lemma metrics_up_with_metrics:
  assumes "metrics_up st" and "\<And>m. ws_connected (f m) = ws_connected m" "\<And>m. error_counters (f m) = error_counters m"
  shows "metrics_up (with_metrics f st)"
  using assms by (auto simp: metrics_up_def)

lemma metrics_up_call: "call_sink m st = (r, st') \<Longrightarrow> metrics_up st' = metrics_up st"
  using call_sink_fields(2,3) [of m st r st'] by (simp add: metrics_up_def handles_ok_def)

lemma metrics_up_next [simp]: "metrics_up (st\<lparr>next_rotation_block := n\<rparr>) = metrics_up st"
  by (simp add: metrics_up_def handles_ok_def)

lemma counted_exit:
  assumes "metrics_up st" and "retire_and_exit (set_ws_connected 0) q (with_metrics f st) = Exit r st'"
    and "\<And>m. error_counters m = (0, 0, 0) \<Longrightarrow> error_counters (f m) = counts"
  shows "metrics_down counts st'"
proof -
  from assms(1) obtain drains rt where up: "handles_ok drains st" "metrics_runtime st = Some rt"
    "error_counters (metrics rt) = (0, 0, 0)" by (auto simp: metrics_up_def)
  then have "handles_ok drains (with_metrics f st)" "metrics_runtime (with_metrics f st) = Some (rt\<lparr>metrics := f (metrics rt)\<rparr>)"
    by simp_all
  then obtain rt' where
    "retire_and_exit (set_ws_connected 0) q (with_metrics f st)
      = (if drains then Exit q else Hang) ((with_metrics f st)\<lparr>metrics_runtime := None, retired_runtime := Some rt'\<rparr>)"
    "metrics rt' = set_ws_connected 0 (f (metrics rt))"
    "task_running (server_handle rt') = (\<not> drains)" "\<not> task_running (rate_handle rt')"
    by (rule retire_down) simp_all
  with assms(2,3) up(3) show ?thesis by (auto simp: metrics_down_def split: if_splits)
qed

text \<open>Each way a log or a signal ends the run.\<close>

lemma missing_down: "missing_metadata field st = Exit r st' \<Longrightarrow> metrics_up st \<Longrightarrow> metrics_down (1, 0, 0) st'"
  unfolding missing_metadata_def by (erule counted_exit [rotated]) (simp_all add: error_counters_def)

lemma write_down:
  assumes "decode_and_write E lg b tx i ck st = Exit (Err e) st'" and up: "metrics_up st"
  shows "metrics_down (case decode_log (env_alloy E) lg of Err e \<Rightarrow> (0, 1, 0) | _ \<Rightarrow> (0, 0, 1)) st'"
proof (cases "decode_log (env_alloy E) lg")
  case (Err x)
  with assms(1) have "retire_and_exit (set_ws_connected 0) (Err x)
      (with_metrics (\<lambda>m. m\<lparr>decode_errors_total := decode_errors_total m + 1\<rparr>) st) = Exit (Err e) st'"
    by (simp add: decode_and_write_def)
  from counted_exit [OF up this, of "(0, 1, 0)"] Err show ?thesis by (simp add: error_counters_def)
next
  case (Ok dec)
  with assms(1) obtain d where d: "dec = Some d" by (cases dec) (simp_all add: decode_and_write_def)
  let ?st = "with_metrics (observe_decoded_type (env_order E) ck (event_type d)) st"
  let ?inc = "\<lambda>m. m\<lparr>write_errors_total := write_errors_total m + 1\<rparr>"
  from assms(1) Ok d obtain x st1 where
    c: "call_sink (sink_write_event (env_parquet E) (env_kafka E) (event_type d) b tx i (columns d)) ?st = (Err x, st1)"
    and e: "retire_and_exit (set_ws_connected 0) (Err x) (with_metrics count_write (with_metrics ?inc st1)) = Exit (Err e) st'"
    by (auto simp: decode_and_write_def Let_def split: prod.splits rs.splits)
  have "metrics_up ?st" by (rule metrics_up_with_metrics [OF up]) simp_all
  then have up1: "metrics_up st1" by (simp add: metrics_up_call [OF c])
  have "with_metrics count_write (with_metrics ?inc st1) = with_metrics (count_write \<circ> ?inc) st1"
    by (cases "metrics_runtime st1") (simp_all add: with_metrics_def)
  from counted_exit [OF up1 e [unfolded this], of "(0, 0, 1)"] Ok show ?thesis
    by (simp add: error_counters_def count_write_def)
qed (use assms(1) in \<open>simp add: decode_and_write_def\<close>)

lemma rotated_up:
  "metrics_up st \<Longrightarrow> metrics_up (with_metrics (\<lambda>m. m\<lparr>rotate_total := rotate_total m + 1\<rparr>) st)"
  by (rule metrics_up_with_metrics) simp_all

lemma rotate_up: "metrics_up st \<Longrightarrow> metrics_up (flow_state (rotate_if_due E cfg b st))"
  by (auto simp: rotate_if_due_def metrics_up_call rotated_up split: option.splits prod.splits rs.splits)

lemma log_exit_metrics:
  assumes exit: "handle_log E cfg lg ck ck' st = Exit (Err e) st'" and up: "metrics_up st"
  shows "if question_mark_exit E cfg (Next_log lg ck ck') st then metrics_up st'
    else metrics_down (counted_error (env_alloy E) (Next_log lg ck ck')) st'"
proof (cases "block_number lg = None \<or> transaction_hash lg = None \<or> log_index lg = None")
  case True
  then obtain field where "missing_metadata field st = Exit (Err e) st'"
    using exit by (auto simp: handle_log_def split: option.splits)
  from missing_down [OF this up] True show ?thesis by (auto split: option.splits)
next
  case False
  then obtain b tx i where lg: "block_number lg = Some b" "transaction_hash lg = Some tx" "log_index lg = Some i"
    by auto
  let ?st = "with_metrics (observe_log (env_order E) ck b) st"
  have up': "metrics_up ?st" by (rule metrics_up_with_metrics [OF up]) (simp_all add: observe_log_gauges)
  show ?thesis
  proof (cases "rotate_if_due E cfg b ?st")
    case (Go s)
    have "metrics_up s" using rotate_up [OF up', of E cfg b] by (simp add: Go)
    with exit Go lg write_down show ?thesis by (fastforce simp: handle_log_def)
  next
    case (Exit q s)
    have "metrics_up s" using rotate_up [OF up', of E cfg b] by (simp add: Exit)
    with exit Exit lg show ?thesis by (simp add: handle_log_def)
  qed (use exit lg in \<open>simp add: handle_log_def\<close>)
qed

lemma ctrl_c_exit_metrics:
  assumes "handle_ctrl_c E r st = Exit (Err e) st'" and "metrics_up st"
  shows "metrics_up st'"
  using assms
  by (auto simp: handle_ctrl_c_def metrics_up_call split: rs.splits prod.splits dest: retire_Exit_result)

lemma streaming_up:
  assumes run: "ff_run E cfg w inputs (Streaming, st)" and "metrics_enabled cfg"
  shows "metrics_up st"
  using ff_run_runtime_inv [OF run] ff_run_ledger [OF run] assms(2)
  unfolding metrics_up_def
  by (auto simp: runtime_inv_def active_def gauge_of_def run_ledger_def ledger_inv_def)

section \<open>Properties\<close>

text \<open>C15. The exported counters are exact, with either sink: while \<open>run\<close> is active, and still after its
  shutdown by Ctrl-C, the counters equal, as \<open>u64\<close>, the ledger of the logs received, over all reconnections:
  all logs, the decoded ones by event type, the writes timed, the rotations the block numbers make due, and the
  block of the last log; no error has been counted, and one shutdown is counted on the exit.\<close>

theorem exported_counters_exact:
  assumes "ff_run E cfg w inputs (ph, st)"
    and "(active ph \<and> metrics_runtime st = Some rt) \<or> (ph = Exited (Ok ()) \<and> retired_runtime st = Some rt)"
  shows "counts_logs (env_alloy E) (flush_blocks cfg) (logs_of inputs) (metrics rt)
    \<and> error_counters (metrics rt) = (0, 0, 0) \<and> shutdown_total (metrics rt) = (if active ph then 0 else 1)"
  using ff_run_ledger [OF assms(1)] assms(2)
  by (auto simp: run_ledger_def ledger_inv_def active_def)

theorem exported_counters_exact_witness:
  "\<exists>st rt. ff_run sample_env sample_config memory_start logged_inputs (Streaming, st)
     \<and> metrics_runtime st = Some rt \<and> logs_total (metrics rt) = 1
     \<and> logs_by_type_total (metrics rt) = [''OrderCancelled'' \<mapsto> 1]
     \<and> current_block_number (metrics rt) = 9 \<and> rotate_total (metrics rt) = 0"
proof -
  obtain st where run: "ff_run sample_env sample_config memory_start logged_inputs (Streaming, st)"
    by (rule sample_logged)
  then obtain rt where rt: "metrics_runtime st = Some rt"
    using streaming_up [OF run] by (auto simp: sample_config_def metrics_up_def)
  have logs: "logs_of logged_inputs = [cancelled_log]"
    by (simp add: logged_inputs_def connected_inputs_def logs_of_def)
  have b: "log_blocks [cancelled_log] = [9]"
    by (simp add: log_blocks_def map_filter_def cancelled_log_def sample_log_def)
  have d: "decoded_type sample_alloy cancelled_log = Some ''OrderCancelled''"
    by (simp add: decoded_type_def cancelled_log_decodes)
  from exported_counters_exact [OF run, of rt] rt
  have "counts_logs sample_alloy (flush_blocks sample_config) [cancelled_log] (metrics rt)"
    by (simp add: active_def logs)
  then show ?thesis
    using run rt by (intro exI [of _ st] exI [of _ rt])
      (auto simp: counts_logs_def b count_type_def d fun_eq_iff rotation_ledger_def f64_of_u64_exact)
qed

definition blockless_log :: Log where
  "blockless_log = cancelled_log\<lparr>block_number := None\<rparr>"

text \<open>C35. The metrics at an exit on an error: when \<open>run\<close> with metrics returns an error while logs are
  streaming, the runtime is shut down, its connection gauge at 0 and exactly the cause of the exit counted
  (missing metadata, a decoding error or a write error), unless the exit is by \<open>?\<close>, on a failure of the
  signal handler, of the close or of a due rotation: then the gauge still says 1, nothing is counted, and the
  tasks are not waited for.\<close>

theorem error_exit_metrics:
  assumes "ff_run E cfg w inputs (Streaming, st)" and "metrics_enabled cfg"
    and "ff_step E cfg inp (Streaming, st) (Exited (Err e), st')"
  shows "if question_mark_exit E cfg inp st then metrics_up st'
    else metrics_down (counted_error (env_alloy E) inp) st'"
proof -
  have up: "metrics_up st" by (rule streaming_up [OF assms(1,2)])
  from assms(3) show ?thesis
  proof cases
    case (step_log lg ck ck')
    then have "handle_log E cfg lg ck ck' st = Exit (Err e) st'"
      by (cases "handle_log E cfg lg ck ck' st") simp_all
    from log_exit_metrics [OF this up] show ?thesis by (simp only: step_log)
  next
    case (step_ctrl_c r)
    then have "handle_ctrl_c E r st = Exit (Err e) st'"
      by (cases "handle_ctrl_c E r st") simp_all
    from ctrl_c_exit_metrics [OF this up] show ?thesis by (simp add: step_ctrl_c)
  qed (simp_all add: stream_end_step_def)
qed

theorem error_exit_metrics_witness:
  "\<exists>st st1 st2. ff_run sample_env sample_config memory_start connected_inputs (Streaming, st)
     \<and> ff_step sample_env sample_config (Ctrl_c (Err ''no signal handler'')) (Streaming, st)
         (Exited (Err ''no signal handler''), st1)
     \<and> metrics_up st1
     \<and> ff_step sample_env sample_config (Next_log blockless_log sample_clock sample_clock) (Streaming, st)
         (Exited (Err ''frontfill received log missing block_number''), st2)
     \<and> metrics_down (1, 0, 0) st2"
proof -
  obtain st where run: "ff_run sample_env sample_config memory_start connected_inputs (Streaming, st)"
    by (rule sample_streaming)
  have m: "metrics_enabled sample_config" by (simp add: sample_config_def)
  have s1: "ff_step sample_env sample_config (Ctrl_c (Err ''no signal handler'')) (Streaming, st)
      (Exited (Err ''no signal handler''), st)"
    using step_ctrl_c [of sample_env sample_config "Err ''no signal handler''" st] by (simp add: handle_ctrl_c_def)
  have none: "block_number blockless_log = None" by (simp add: blockless_log_def)
  have "handles_ok True (with_metrics (\<lambda>m. m\<lparr>missing_metadata_total := missing_metadata_total m + 1\<rparr>) st)"
    using ff_run_runtime_inv [OF run] by (simp add: runtime_inv_def sample_env_def open_env_def)
  then obtain st2 where "handle_log sample_env sample_config blockless_log sample_clock sample_clock st
      = Exit (Err ''frontfill received log missing block_number'') st2"
    by (rule retire_and_exit_ok [where f = "set_ws_connected 0"
        and r = "Err ''frontfill received log missing block_number''"])
      (simp add: handle_log_def none missing_metadata_def)
  with step_log [of sample_env sample_config blockless_log sample_clock sample_clock st]
  have s2: "ff_step sample_env sample_config (Next_log blockless_log sample_clock sample_clock) (Streaming, st)
      (Exited (Err ''frontfill received log missing block_number''), st2)" by simp
  from error_exit_metrics [OF run m s1] error_exit_metrics [OF run m s2] run s1 s2 none show ?thesis
    by (intro exI [of _ st] exI [of _ st2]) simp
qed

end
