(* ===== verification/Backfill_Chunk.thy ===== *)
theory Backfill_Chunk
  imports Frontfill
begin

text \<open>
  Model of what \<open>src/src/backfill.rs\<close> does with the logs of one chunk: grouping the decoded logs by
  event type, sorting the rows of a type by block and log index, and writing one Parquet file per
  type (\<open>write_parquet_file\<close>). The lemmas relate the files to the rows the frontfill indexer writes for
  the same logs.
\<close>

section \<open>Rows\<close>

record EventRow =
  row_block :: u64
  row_tx_hash :: string
  row_log_index :: u64
  row_values :: "string list"

text \<open>The keys and values of \<open>by_event\<close>: the column names of the event type and its rows.\<close>

type_synonym by_event = "(string list \<times> EventRow list) hash_map"

definition push_row :: "DecodedEvent \<Rightarrow> EventRow \<Rightarrow> by_event \<Rightarrow> by_event" where
  "push_row decoded row m =
     (let entry = (case map_of m (event_type decoded) of
          Some entry \<Rightarrow> entry | None \<Rightarrow> (map fst (columns decoded), []))
      in AList.update (event_type decoded) (fst entry, snd entry @ [row]) m)"

text \<open>One turn of the loop over the logs; the state is \<open>by_event\<close> and \<open>missing_metadata_count\<close>.\<close>

definition group_log :: "alloy \<Rightarrow> Log \<Rightarrow> by_event \<times> u64 \<Rightarrow> (by_event \<times> u64) rs" where
  "group_log A lg = (\<lambda>(m, missing). case decode_log A lg of
      Err e \<Rightarrow> Ok (m, missing)
    | Panic \<Rightarrow> Panic
    | Ok None \<Rightarrow> Ok (m, missing)
    | Ok (Some decoded) \<Rightarrow> (case block_number lg of
          None \<Rightarrow> Ok (m, saturating_add missing 1)
        | Some b \<Rightarrow> (case transaction_hash lg of
              None \<Rightarrow> Ok (m, saturating_add missing 1)
            | Some tx \<Rightarrow> (case log_index lg of
                  None \<Rightarrow> Ok (m, saturating_add missing 1)
                | Some i \<Rightarrow> Ok (push_row decoded
                    \<lparr>row_block = b, row_tx_hash = b256_to_string A tx, row_log_index = i,
                     row_values = map snd (columns decoded)\<rparr> m, missing)))))"

fun group_logs :: "alloy \<Rightarrow> Log list \<Rightarrow> by_event \<times> u64 \<Rightarrow> (by_event \<times> u64) rs" where
  "group_logs A [] s = Ok s"
| "group_logs A (lg # lgs) s = bind_rs (group_log A lg s) (group_logs A lgs)"

section \<open>Sorting\<close>

text \<open>\<open>std::cmp::Ordering\<close>, \<open>Ord::cmp\<close> on \<open>u64\<close>, \<open>Ordering::then\<close> and the stable \<open>slice::sort_by\<close>.\<close>

datatype Ordering = Less | Equal | Greater

definition cmp_u64 :: "u64 \<Rightarrow> u64 \<Rightarrow> Ordering" where
  "cmp_u64 a b = (if a < b then Less else if a = b then Equal else Greater)"

fun then_ordering :: "Ordering \<Rightarrow> Ordering \<Rightarrow> Ordering" where
  "then_ordering Equal r = r"
| "then_ordering Less r = Less"
| "then_ordering Greater r = Greater"

definition cmp_rows :: "EventRow \<Rightarrow> EventRow \<Rightarrow> Ordering" where
  "cmp_rows a b =
     then_ordering (cmp_u64 (row_block a) (row_block b)) (cmp_u64 (row_log_index a) (row_log_index b))"

fun insert_by :: "('a \<Rightarrow> 'a \<Rightarrow> Ordering) \<Rightarrow> 'a \<Rightarrow> 'a list \<Rightarrow> 'a list" where
  "insert_by cmp x [] = [x]"
| "insert_by cmp x (y # ys) = (if cmp x y = Greater then y # insert_by cmp x ys else x # y # ys)"

definition sort_by :: "('a \<Rightarrow> 'a \<Rightarrow> Ordering) \<Rightarrow> 'a list \<Rightarrow> 'a list" where
  "sort_by cmp xs = foldr (insert_by cmp) xs []"

text \<open>The order of the comparison: by block, then by log index.\<close>

datatype row_key = Row_key u64 u64

instantiation row_key :: linorder
begin

fun less_eq_row_key :: "row_key \<Rightarrow> row_key \<Rightarrow> bool" where
  "less_eq_row_key (Row_key b i) (Row_key b' i') \<longleftrightarrow> b < b' \<or> b = b' \<and> i \<le> i'"

definition less_row_key :: "row_key \<Rightarrow> row_key \<Rightarrow> bool" where
  "less_row_key k k' \<longleftrightarrow> k \<le> k' \<and> \<not> k' \<le> k"

instance
proof
  fix k k' k'' :: row_key
  show "k < k' \<longleftrightarrow> k \<le> k' \<and> \<not> k' \<le> k" by (rule less_row_key_def)
  show "k \<le> k" by (cases k) simp
  show "k \<le> k' \<Longrightarrow> k' \<le> k'' \<Longrightarrow> k \<le> k''" by (cases k; cases k'; cases k'') auto
  show "k \<le> k' \<Longrightarrow> k' \<le> k \<Longrightarrow> k = k'" by (cases k; cases k') auto
  show "k \<le> k' \<or> k' \<le> k" by (cases k; cases k') auto
qed

end

definition row_key :: "EventRow \<Rightarrow> row_key" where
  "row_key row = Row_key (row_block row) (row_log_index row)"

lemma cmp_rows_key: "cmp_rows a b = Greater \<longleftrightarrow> \<not> row_key a \<le> row_key b"
  by (auto simp: cmp_rows_def cmp_u64_def row_key_def)

lemma insert_by_key: "insert_by cmp_rows row rows = insort_key row_key row rows"
  by (induction rows) (simp_all add: cmp_rows_key)

lemma sort_by_key: "sort_by cmp_rows rows = sort_key row_key rows"
proof -
  have "insert_by cmp_rows = insort_key row_key" by (intro ext) (rule insert_by_key)
  then show ?thesis by (simp add: sort_by_def sort_key_def)
qed

section \<open>Writing a file\<close>

definition chunk_file_name :: "u64 \<Rightarrow> u64 \<Rightarrow> string" where
  "chunk_file_name a b = show_u64 a @ ''-'' @ show_u64 b @ ''.parquet''"

definition table_schema :: "string list \<Rightarrow> Schema" where
  "table_schema cols =
     [Field_new ''event_type'' Utf8 False, Field_new ''block_number'' UInt64 False,
      Field_new ''transaction_hash'' Utf8 False, Field_new ''log_index'' UInt64 False]
     @ map (\<lambda>c. Field_new c Utf8 False) cols"

text \<open>
  \<open>row.values[col_index]\<close> panics when the row is too short, and \<open>StringArray::from\<close> when a column has
  more text than its offsets reach.
\<close>

definition column_array :: "('w, 'f, 'h) parquet_api \<Rightarrow> EventRow list \<Rightarrow> nat \<Rightarrow> Array rs" where
  "column_array P rows k = bind_rs (traverse_rs
     (\<lambda>row. if k < length (row_values row) then Ok (row_values row ! k) else Panic) rows) (string_array P)"

definition table_arrays ::
  "('w, 'f, 'h) parquet_api \<Rightarrow> string \<Rightarrow> string list \<Rightarrow> EventRow list \<Rightarrow> Array list rs" where
  "table_arrays P et cols rows =
     bind_rs (string_array P (replicate (length rows) et)) (\<lambda>event_type_array.
       bind_rs (string_array P (map row_tx_hash rows)) (\<lambda>tx_hash_array.
         map_rs_value
           (\<lambda>values. [event_type_array, UInt64Array (map row_block rows), tx_hash_array,
              UInt64Array (map row_log_index rows)] @ values)
           (traverse_rs (column_array P rows) [0..<length cols])))"

definition write_parquet_file ::
  "('w, 'f, 'h) parquet_api \<Rightarrow> string \<Rightarrow> string \<Rightarrow> string list \<Rightarrow> EventRow list \<Rightarrow> u64 \<Rightarrow> u64 \<Rightarrow>
     ('w, unit) io" where
  "write_parquet_file P out et cols rows a b =
     (let schema = table_schema cols; dir = path_join out et
      in io_bind (create_dir_all P dir) (\<lambda>_.
           io_bind (file_create P (path_join dir (chunk_file_name a b))) (\<lambda>file.
             io_bind (arrow_writer_new P file schema) (\<lambda>writer.
               io_bind (io_rs (table_arrays P et cols rows)) (\<lambda>arrays.
                 io_bind (io_rs (record_batch_new P schema arrays)) (\<lambda>batch.
                   io_bind (writer_write P writer batch) (\<lambda>_. writer_close P writer)))))))"

section \<open>The groups of a chunk\<close>

text \<open>The rows of a group as the one-row batches of the frontfill indexer.\<close>

definition row_of :: "string \<Rightarrow> string list \<Rightarrow> EventRow \<Rightarrow> RecordBatch" where
  "row_of et cols row =
     row_batch et (row_block row) (row_tx_hash row) (row_log_index row) (zip cols (row_values row))"

fun group_rows :: "string \<times> string list \<times> EventRow list \<Rightarrow> RecordBatch list" where
  "group_rows (et, cols, rows) = map (row_of et cols) rows"

definition all_rows :: "by_event \<Rightarrow> RecordBatch multiset" where
  "all_rows m = mset (concat (map group_rows m))"

text \<open>
  What the groups are like: one per event type, which is that of a declared event and fixes the columns,
  and every row has a value per column.
\<close>

fun group_ok :: "string \<times> string list \<times> EventRow list \<Rightarrow> bool" where
  "group_ok (et, cols, rows) \<longleftrightarrow> plain_segment et \<and> column_schema et = Some cols \<and> rows \<noteq> []
     \<and> (\<forall>row \<in> set rows. length (row_values row) = length cols)"

definition groups_ok :: "by_event \<Rightarrow> bool" where
  "groups_ok m \<longleftrightarrow> hash_wf m \<and> (\<forall>g \<in> set m. group_ok g)"

text \<open>A log that decodes to an event and lacks a field of the metadata.\<close>

definition lacks_metadata :: "alloy \<Rightarrow> Log \<Rightarrow> bool" where
  "lacks_metadata A lg \<longleftrightarrow> (\<exists>d. decode_log A lg = Ok (Some d))
     \<and> (block_number lg = None \<or> transaction_hash lg = None \<or> log_index lg = None)"

lemma all_rows_simps [simp]:
  "all_rows [] = {#}" "all_rows (g # m) = mset (group_rows g) + all_rows m"
  "all_rows (m @ m') = all_rows m + all_rows m'"
  by (simp_all add: all_rows_def)

lemma all_rows_sum: "all_rows m = (\<Sum>g\<in>#mset m. mset (group_rows g))"
  by (induction m) simp_all

lemma all_rows_mset: "mset m = mset m' \<Longrightarrow> all_rows m = all_rows m'"
  by (simp add: all_rows_sum)

lemma map_of_split_key:
  assumes "map_of m k = Some v"
  obtains xs ys where "m = xs @ (k, v) # ys" and "k \<notin> fst ` set xs"
proof -
  have "\<exists>xs ys. m = xs @ (k, v) # ys \<and> k \<notin> fst ` set xs" using assms
  proof (induction m)
    case (Cons p m)
    show ?case
    proof (cases "fst p = k")
      case True
      with Cons.prems have "p # m = [] @ (k, v) # m" by (cases p) simp
      then show ?thesis by (metis empty_iff image_empty list.set(1))
    next
      case False
      with Cons obtain xs ys where "m = xs @ (k, v) # ys" "k \<notin> fst ` set xs"
        by (auto split: if_splits)
      with False have "p # m = (p # xs) @ (k, v) # ys" "k \<notin> fst ` set (p # xs)" by auto
      then show ?thesis by blast
    qed
  qed simp
  with that show thesis by blast
qed

lemma update_split_key:
  "k \<notin> fst ` set xs \<Longrightarrow> AList.update k v' (xs @ (k, v) # ys) = xs @ (k, v') # ys"
  by (induction xs) auto

lemma column_schema_plain:
  assumes "decode_log A lg = Ok (Some d)"
  shows "plain_segment (event_type d)" "column_schema (event_type d) = Some (map fst (columns d))"
  using assms decoder.decoded_schema [OF assms] by (auto elim!: decode_log_kind simp: plain_event_name)

lemma push_row_groups:
  assumes "groups_ok m" and d: "decode_log A lg = Ok (Some d)" and "row_values row = map snd (columns d)"
  shows "groups_ok (push_row d row m)"
    and "all_rows (push_row d row m) = add_mset (row_of (event_type d) (map fst (columns d)) row) (all_rows m)"
proof -
  note schema = column_schema_plain [OF d]
  have "groups_ok (push_row d row m) \<and>
    all_rows (push_row d row m) = add_mset (row_of (event_type d) (map fst (columns d)) row) (all_rows m)"
  proof (cases "map_of m (event_type d)")
    case None
    then have "event_type d \<notin> set (map fst m)" by (simp add: map_of_eq_None_iff)
    then have "push_row d row m = m @ [(event_type d, map fst (columns d), [row])]"
      using None by (simp add: push_row_def update_new_key)
    with assms(1,3) schema None show ?thesis
      by (auto simp: groups_ok_def map_of_eq_None_iff)
  next
    case (Some entry)
    then obtain xs ys where m: "m = xs @ (event_type d, entry) # ys" and new: "event_type d \<notin> fst ` set xs"
      by (rule map_of_split_key)
    obtain cols rows where entry: "entry = (cols, rows)" by fastforce
    have cols: "cols = map fst (columns d)" using assms(1) schema(2) by (auto simp: groups_ok_def m entry)
    have "push_row d row m = xs @ (event_type d, cols, rows @ [row]) # ys"
      unfolding push_row_def Some by (simp add: entry m update_split_key [OF new])
    with assms(1,3) show ?thesis
      by (auto simp: groups_ok_def m entry cols)
  qed
  then show "groups_ok (push_row d row m)"
    "all_rows (push_row d row m) = add_mset (row_of (event_type d) (map fst (columns d)) row) (all_rows m)"
    by simp_all
qed

lemma group_log_groups:
  assumes "group_log A lg (m, n) = Ok (m', n')" and "groups_ok m"
  shows "groups_ok m'" and "all_rows m' = all_rows m + mset (log_rows A lg)"
    and "n' = (if lacks_metadata A lg then saturating_add n 1 else n)"
proof -
  have "groups_ok m' \<and> all_rows m' = all_rows m + mset (log_rows A lg)
      \<and> n' = (if lacks_metadata A lg then saturating_add n 1 else n)"
  proof (cases "\<exists>d b tx i. decode_log A lg = Ok (Some d) \<and> block_number lg = Some b
      \<and> transaction_hash lg = Some tx \<and> log_index lg = Some i")
    case True
    then obtain d b tx i where lg: "decode_log A lg = Ok (Some d)" "block_number lg = Some b"
      "transaction_hash lg = Some tx" "log_index lg = Some i" by blast
    let ?row = "\<lparr>row_block = b, row_tx_hash = b256_to_string A tx, row_log_index = i,
      row_values = map snd (columns d)\<rparr>"
    have "m' = push_row d ?row m" "n' = n" using assms(1) by (simp_all add: group_log_def lg)
    with push_row_groups [OF assms(2) lg(1), of ?row] show ?thesis
      by (simp add: log_rows_def lg row_of_def lacks_metadata_def zip_map_fst_snd)
  next
    case False
    then show ?thesis using assms
      by (cases "decode_log A lg")
        (auto simp: group_log_def log_rows_def lacks_metadata_def split: option.splits)
  qed
  then show "groups_ok m'" "all_rows m' = all_rows m + mset (log_rows A lg)"
    "n' = (if lacks_metadata A lg then saturating_add n 1 else n)" by simp_all
qed

lemma group_logs_groups:
  assumes "group_logs A lgs (m, n) = Ok (m', n')" and "groups_ok m"
  shows "groups_ok m'" and "all_rows m' = all_rows m + mset (concat (map (log_rows A) lgs))"
    and "unat n' = min (unat n + length (filter (lacks_metadata A) lgs)) (2 ^ 64 - 1)"
proof -
  have "groups_ok m' \<and> all_rows m' = all_rows m + mset (concat (map (log_rows A) lgs))
    \<and> unat n' = min (unat n + length (filter (lacks_metadata A) lgs)) (2 ^ 64 - 1)"
    using assms
  proof (induction lgs arbitrary: m n)
    case Nil
    have "unat n < 2 ^ 64" by (rule unsigned_less [THEN order_less_le_trans]) simp
    with Nil show ?case by simp
  next
    case (Cons lg lgs)
    from Cons.prems(1) obtain m1 n1 where s: "group_log A lg (m, n) = Ok (m1, n1)"
      and r: "group_logs A lgs (m1, n1) = Ok (m', n')" by auto
    from group_log_groups [OF s Cons.prems(2)] Cons.IH [OF r] show ?case
      by (auto simp: u64_simps)
  qed
  then show "groups_ok m'" "all_rows m' = all_rows m + mset (concat (map (log_rows A) lgs))"
    "unat n' = min (unat n + length (filter (lacks_metadata A) lgs)) (2 ^ 64 - 1)" by simp_all
qed

section \<open>The rows of a file\<close>

text \<open>A batch cut into one-row batches.\<close>

fun array_at :: "nat \<Rightarrow> Array \<Rightarrow> Array" where
  "array_at k (StringArray xs) = StringArray [xs ! k]"
| "array_at k (UInt64Array xs) = UInt64Array [xs ! k]"

definition batch_slices :: "RecordBatch \<Rightarrow> RecordBatch list" where
  "batch_slices b = map (\<lambda>k. \<lparr>batch_schema = batch_schema b, batch_columns = map (array_at k) (batch_columns b)\<rparr>)
     [0..<(case batch_columns b of [] \<Rightarrow> 0 | c # _ \<Rightarrow> array_len c)]"

definition slices :: "RecordBatch multiset \<Rightarrow> RecordBatch multiset" where
  "slices M = (\<Sum>b\<in>#M. mset (batch_slices b))"

lemma slices_simps [simp]:
  "slices {#} = {#}" "slices (add_mset b M) = mset (batch_slices b) + slices M"
  "slices (M + N) = slices M + slices N"
  by (simp_all add: slices_def)

lemma table_schema_event: "table_schema cols = event_schema cols"
  by (simp add: table_schema_def event_schema_def base_fields_def)

lemma column_array_ok:
  "\<forall>row \<in> set rows. k < length (row_values row) \<Longrightarrow>
    column_array P rows k = string_array P (map (\<lambda>row. row_values row ! k) rows)"
  by (simp add: column_array_def traverse_rs_Ok_total [where g = "\<lambda>row. row_values row ! k"])

text \<open>The text columns of the file of a group stay within the offsets of a \<open>StringArray\<close>.\<close>

fun columns_fit :: "string \<times> string list \<times> EventRow list \<Rightarrow> bool" where
  "columns_fit (et, cols, rows) \<longleftrightarrow>
     text_bytes (replicate (length rows) et) < 2 ^ 31 \<and> text_bytes (map row_tx_hash rows) < 2 ^ 31
     \<and> (\<forall>k < length cols. text_bytes (map (\<lambda>row. row_values row ! k) rows) < 2 ^ 31)"

lemma text_bytes_sort: "text_bytes (map f (sort_by cmp_rows rows)) = text_bytes (map f rows)"
proof -
  have "text_bytes (map f xs) = sum_mset (image_mset (length \<circ> f) (mset xs))" for xs
    by (simp add: text_bytes_def sum_mset_sum_list [symmetric] comp_def flip: mset_map)
  then show ?thesis by (simp add: sort_by_key)
qed

lemma columns_fit_sort: "columns_fit (et, cols, sort_by cmp_rows rows) \<longleftrightarrow> columns_fit (et, cols, rows)"
  by (simp add: text_bytes_sort) (simp add: sort_by_key)

definition group_arrays :: "string \<Rightarrow> string list \<Rightarrow> EventRow list \<Rightarrow> Array list" where
  "group_arrays et cols rows =
     [StringArray (replicate (length rows) et), UInt64Array (map row_block rows),
      StringArray (map row_tx_hash rows), UInt64Array (map row_log_index rows)]
     @ map (\<lambda>k. StringArray (map (\<lambda>row. row_values row ! k) rows)) [0..<length cols]"

definition group_batch :: "string \<Rightarrow> string list \<Rightarrow> EventRow list \<Rightarrow> RecordBatch" where
  "group_batch et cols rows =
     \<lparr>batch_schema = event_schema cols, batch_columns = group_arrays et cols rows\<rparr>"

lemma string_array_Ok: "batches_ok P \<Longrightarrow> string_array P xs = Ok a \<Longrightarrow> a = StringArray xs"
  by (simp add: batches_ok_def)

lemma table_arrays_Ok:
  assumes "batches_ok P" and "\<forall>row \<in> set rows. length (row_values row) = length cols"
    and "table_arrays P et cols rows = Ok arrays"
  shows "arrays = group_arrays et cols rows"
proof -
  from assms(1,3) obtain vs where a: "arrays = [StringArray (replicate (length rows) et), UInt64Array (map row_block rows),
      StringArray (map row_tx_hash rows), UInt64Array (map row_log_index rows)] @ vs"
    and vs: "list_all2 (\<lambda>k v. column_array P rows k = Ok v) [0..<length cols] vs"
    by (auto simp: table_arrays_def traverse_rs_Ok_iff dest: string_array_Ok)
  have v: "v = StringArray (map (\<lambda>row. row_values row ! k) rows)"
    if "column_array P rows k = Ok v" "k \<in> set [0..<length cols]" for k v
    using that string_array_Ok [OF assms(1)] assms(2) by (simp add: column_array_ok)
  from vs have "list_all2 (\<lambda>k v. v = StringArray (map (\<lambda>row. row_values row ! k) rows)) [0..<length cols] vs"
    by (rule list.rel_mono_strong) (use v in blast)
  then have "vs = map (\<lambda>k. StringArray (map (\<lambda>row. row_values row ! k) rows)) [0..<length cols]"
    by (auto simp: list_all2_conv_all_nth intro: nth_equalityI)
  with a show ?thesis by (simp add: group_arrays_def)
qed

lemma table_arrays_succeed:
  assumes "string_arrays_ok P" and "\<forall>row \<in> set rows. length (row_values row) = length cols"
    and "columns_fit (et, cols, rows)"
  shows "table_arrays P et cols rows = Ok (group_arrays et cols rows)"
proof -
  have "traverse_rs (column_array P rows) [0..<length cols]
      = Ok (map (\<lambda>k. StringArray (map (\<lambda>row. row_values row ! k) rows)) [0..<length cols])"
    by (rule traverse_rs_Ok_total) (use assms in \<open>simp add: column_array_ok string_arrays_ok_def\<close>)
  with assms(1,3) show ?thesis by (simp add: table_arrays_def group_arrays_def string_arrays_ok_def)
qed

lemma group_arrays_fit: "batch_fits (event_schema cols) (group_arrays et cols rows)"
  by (auto simp: batch_fits_def group_arrays_def event_schema_def base_fields_def Field_new_def comp_def
      map_replicate_const)

lemma map_nth_snd: "map (\<lambda>(_, v). StringArray [v]) (zip cols vs) = map (\<lambda>k. StringArray [vs ! k]) [0..<length cols]"
  if "length vs = length cols"
  using that by (intro nth_equalityI) auto

lemma map_fst_zip_same: "length vs = length cols \<Longrightarrow> map fst (zip cols vs) = cols"
  by simp

text \<open>The slices of the batch of a group are the one-row batches of its rows.\<close>

lemma group_batch_slices:
  assumes "\<forall>row \<in> set rows. length (row_values row) = length cols"
  shows "batch_slices (group_batch et cols rows) = group_rows (et, cols, rows)"
proof (rule nth_equalityI)
  show "length (batch_slices (group_batch et cols rows)) = length (group_rows (et, cols, rows))"
    by (simp add: batch_slices_def group_batch_def group_arrays_def)
  fix k
  assume "k < length (batch_slices (group_batch et cols rows))"
  then have k: "k < length rows" by (simp add: batch_slices_def group_batch_def group_arrays_def)
  with assms have "length (row_values (rows ! k)) = length cols" by simp
  with k show "batch_slices (group_batch et cols rows) ! k = group_rows (et, cols, rows) ! k"
    by (simp add: batch_slices_def group_batch_def group_arrays_def row_of_def row_batch_eq
        event_arrays_def map_nth_snd)
qed

text \<open>Reading the rows of a file back.\<close>

fun string_at :: "nat \<Rightarrow> Array \<Rightarrow> string" where
  "string_at k (StringArray xs) = xs ! k"
| "string_at k (UInt64Array xs) = show_u64 (xs ! k)"

fun read_columns :: "Array list \<Rightarrow> EventRow list" where
  "read_columns (StringArray types # UInt64Array blocks # StringArray hashes # UInt64Array indexes # values) =
     map (\<lambda>k. \<lparr>row_block = blocks ! k, row_tx_hash = hashes ! k, row_log_index = indexes ! k,
        row_values = map (string_at k) values\<rparr>) [0..<length blocks]"
| "read_columns _ = []"

lemma read_columns_group:
  assumes "\<forall>row \<in> set rows. length (row_values row) = length cols"
  shows "read_columns (group_arrays et cols rows) = rows"
proof (rule nth_equalityI)
  show "length (read_columns (group_arrays et cols rows)) = length rows" by (simp add: group_arrays_def)
  fix k
  assume "k < length (read_columns (group_arrays et cols rows))"
  then have k: "k < length rows" by (simp add: group_arrays_def)
  with assms have "length (row_values (rows ! k)) = length cols" by simp
  then have "map (\<lambda>j. row_values (rows ! k) ! j) [0..<length cols] = row_values (rows ! k)"
    by (metis map_nth)
  with k show "read_columns (group_arrays et cols rows) ! k = rows ! k"
    by (simp add: group_arrays_def comp_def)
qed

lemma write_parquet_file_Ok:
  assumes w: "writers_ok P V" "batches_ok P"
    and run: "write_parquet_file P out et cols rows a b s = (Ok u, s')"
    and new: "path_join (path_join out et) (chunk_file_name a b) \<notin> data_paths V s"
    and rows: "\<forall>row \<in> set rows. length (row_values row) = length cols"
  shows "finished V s' = finished V s + {#group_batch et cols rows#}"
    and "data_paths V s' = insert (path_join (path_join out et) (chunk_file_name a b)) (data_paths V s)"
    and "open_batches V s' = open_batches V s"
proof -
  let ?p = "path_join (path_join out et) (chunk_file_name a b)"
  from run table_arrays_Ok [OF w(2) rows, of et] obtain s1 f s2 h s3 batch s4 where
    c_dir: "create_dir_all P (path_join out et) s = (Ok (), s1)"
    and c_file: "file_create P ?p s1 = (Ok f, s2)"
    and c_open: "arrow_writer_new P f (event_schema cols) s2 = (Ok h, s3)"
    and c_batch: "record_batch_new P (event_schema cols) (group_arrays et cols rows) = Ok batch"
    and c_write: "writer_write P h batch s3 = (Ok (), s4)" and c_close: "writer_close P h s4 = (Ok (), s')"
    unfolding write_parquet_file_def Let_def table_schema_event
    by (auto elim!: io_bind_Ok_elim)
  note sd = writers_ok_create_dir [OF w(1) c_dir, unfolded same_data_def]
  have "?p \<notin> data_paths V s1" using new sd by simp
  note sf = writers_ok_file_create [OF w(1) c_file this, unfolded same_data_def]
  note sp = writers_ok_file_path [OF w(1) c_file]
  note so = writers_ok_new [OF w(1) c_open]
  have "open_batches V s3 h = Some []" using so by simp
  note sw = writers_ok_write [OF w(1) this c_write]
  have "open_batches V s4 h = Some [batch]" using sw by simp
  note sc = writers_ok_close [OF w(1) this c_close]
  have "batch = group_batch et cols rows"
    using w(2) c_batch by (simp add: batches_ok_def group_batch_def)
  with sd sf so sw sc show "finished V s' = finished V s + {#group_batch et cols rows#}" by simp
  from sd sf sp so sw sc show "data_paths V s' = insert ?p (data_paths V s)" by simp
  from sd sf so sw sc show "open_batches V s' = open_batches V s" by (auto simp: fun_eq_iff)
qed

section \<open>Failures of a write\<close>

lemma write_parquet_file_no_panic:
  assumes "no_panics P" and "string_arrays_ok P" and "\<forall>row \<in> set rows. length (row_values row) = length cols"
    and "columns_fit (et, cols, rows)"
  shows "fst (write_parquet_file P out et cols rows a b s) \<noteq> Panic"
proof
  assume "fst (write_parquet_file P out et cols rows a b s) = Panic"
  then obtain s' where "write_parquet_file P out et cols rows a b s = (Panic, s')" by (metis prod.collapse)
  then show False
    using assms(1) table_arrays_succeed [OF assms(2-4)] unfolding write_parquet_file_def Let_def no_panics_def
    by (auto elim!: io_bind_elim) (metis fst_conv)+
qed

lemma write_parquet_file_succeeds:
  assumes w: "writers_ok P V" "batches_ok P" "calls_succeed P V" "string_arrays_ok P"
    and rows: "\<forall>row \<in> set rows. length (row_values row) = length cols"
    and fit: "columns_fit (et, cols, rows)"
  shows "fst (write_parquet_file P out et cols rows a b s) = Ok ()"
proof -
  let ?p = "path_join (path_join out et) (chunk_file_name a b)"
  note ok = w(3) [unfolded calls_succeed_def]
  obtain s1 where c_dir: "create_dir_all P (path_join out et) s = (Ok (), s1)"
    using ok by (metis prod.collapse)
  obtain f s2 where c_file: "file_create P ?p s1 = (Ok f, s2)"
    using ok by (metis prod.collapse)
  obtain h s3 where c_open: "arrow_writer_new P f (event_schema cols) s2 = (Ok h, s3)"
    using ok by (metis prod.collapse)
  obtain batch where c_batch: "record_batch_new P (event_schema cols) (group_arrays et cols rows) = Ok batch"
    using w(2) group_arrays_fit unfolding batches_ok_def by blast
  have op: "open_batches V s3 h = Some []" using writers_ok_new [OF w(1) c_open] by simp
  obtain s4 where c_write: "writer_write P h batch s3 = (Ok (), s4)"
    using ok op by (metis option.distinct(1) prod.collapse)
  have "open_batches V s4 h \<noteq> None" using writers_ok_write [OF w(1) op c_write] by simp
  then obtain s' where c_close: "writer_close P h s4 = (Ok (), s')"
    using ok by (metis prod.collapse)
  show ?thesis
    using c_dir c_file c_open c_batch c_write c_close table_arrays_succeed [OF w(4) rows fit]
    unfolding write_parquet_file_def Let_def table_schema_event
    by (simp add: io_bind_def)
qed

section \<open>Paths\<close>

definition chunk_file :: "string \<Rightarrow> string \<Rightarrow> u64 \<times> u64 \<Rightarrow> string" where
  "chunk_file out et = (\<lambda>(a, b). path_join (path_join out et) (chunk_file_name a b))"

lemma chunk_file_name_inject [simp]:
  "chunk_file_name a b = chunk_file_name a' b' \<longleftrightarrow> a = a' \<and> b = b'"
proof
  have no: "CHR ''-'' \<notin> set (show_u64 k)" for k by (rule show_u64_no_char) (simp add: is_digit_def)
  assume "chunk_file_name a b = chunk_file_name a' b'"
  then have "show_u64 a @ CHR ''-'' # show_u64 b @ ''.parquet'' = show_u64 a' @ CHR ''-'' # show_u64 b' @ ''.parquet''"
    by (simp add: chunk_file_name_def)
  from split_at_separator [OF no no this] show "a = a' \<and> b = b'" by simp
qed simp

lemma chunk_file_name_chars:
  "chunk_file_name a b \<noteq> []" "CHR ''/'' \<notin> set (chunk_file_name a b)"
  "CHR ''_'' \<notin> set (chunk_file_name a b)"
  by (simp_all add: chunk_file_name_def show_u64_no_char is_digit_def)

lemma segment_path:
  assumes "plain_segment et" and "name \<noteq> []" and "CHR ''/'' \<notin> set name"
  shows "path_join (path_join out et) name = path_join out (et @ CHR ''/'' # name)"
proof -
  have "hd name \<noteq> CHR ''/''" using assms(2,3) by (metis hd_in_set)
  with plain_segment_ends [OF assms(1)] show ?thesis by (simp add: path_join_def)
qed

lemma segment_path_inject:
  assumes "plain_segment et" "plain_segment et'" and "name \<noteq> []" "name' \<noteq> []"
    and "CHR ''/'' \<notin> set name" "CHR ''/'' \<notin> set name'"
    and "path_join (path_join out et) name = path_join (path_join out et') name'"
  shows "et = et' \<and> name = name'"
proof -
  have "et @ CHR ''/'' # name = et' @ CHR ''/'' # name'"
    using assms plain_segment_ends [OF assms(1)] plain_segment_ends [OF assms(2)]
    by (simp add: segment_path path_join_inject)
  from split_at_separator [OF _ _ this] assms(1,2) show ?thesis by (simp add: plain_segment_def)
qed

lemma chunk_file_inject:
  assumes "plain_segment et" and "plain_segment et'"
  shows "chunk_file out et c = chunk_file out et' c' \<longleftrightarrow> et = et' \<and> c = c'"
proof
  assume e: "chunk_file out et c = chunk_file out et' c'"
  obtain a b a' b' where c: "c = (a, b)" "c' = (a', b')" by fastforce
  from segment_path_inject [OF assms chunk_file_name_chars(1) chunk_file_name_chars(1)
      chunk_file_name_chars(2) chunk_file_name_chars(2)] e
  show "et = et' \<and> c = c'" unfolding chunk_file_def c prod.case by (metis chunk_file_name_inject)
qed simp

text \<open>The two programs never write to the same path.\<close>

lemma chunk_file_not_data_file:
  assumes "plain_segment et" and "plain_segment et'"
  shows "chunk_file out et c \<noteq> data_file out et' t n"
proof
  obtain a b where c: "c = (a, b)" by fastforce
  have name: "CHR ''_'' \<in> set (file_set_name t n)" "file_set_name t n \<noteq> []"
    by (simp_all add: file_set_name_def)
  assume "chunk_file out et c = data_file out et' t n"
  from segment_path_inject [OF assms chunk_file_name_chars(1) name(2) chunk_file_name_chars(2)
      file_set_name_no_slash] this
  have "chunk_file_name a b = file_set_name t n"
    by (metis c chunk_file_def data_file_def event_dir_def prod.case)
  with name(1) chunk_file_name_chars(3) [of a b] show False by simp
qed

section \<open>Properties\<close>

lemma groups_ok_Nil [simp]: "groups_ok []"
  by (simp add: groups_ok_def)

lemma sorted_group_slices:
  assumes "groups_ok m"
  shows "slices (mset (map (\<lambda>(et, cols, rows). group_batch et cols (sort_by cmp_rows rows)) m)) = all_rows m"
  using assms
proof (induction m)
  case (Cons g m)
  obtain et cols rows where g: "g = (et, cols, rows)" by (cases g)
  have "groups_ok m" using Cons.prems by (simp add: groups_ok_def)
  note IH = Cons.IH [OF this]
  have "\<forall>row \<in> set (sort_by cmp_rows rows). length (row_values row) = length cols"
    using Cons.prems by (simp add: groups_ok_def g sort_by_key)
  from group_batch_slices [OF this, of et] IH show ?case by (simp add: g sort_by_key)
qed simp

text \<open>C5. For the same logs the backfill stores what the frontfill indexer stores: the batches of a chunk,
  sorted and grouped by event type, cut into rows, are exactly the one-row batches the frontfill
  indexer writes for the logs, each log once; a file of an event type has the frontfill schema of
  that type.\<close>

theorem chunk_rows_agree_with_frontfill:
  assumes "group_logs A lgs ([], 0) = Ok (m, n)"
  shows "slices (mset (map (\<lambda>(et, cols, rows). group_batch et cols (sort_by cmp_rows rows)) m))
      = mset (concat (map (log_rows A) lgs))
    \<and> (\<forall>(et, cols, rows) \<in> set m. column_schema et = Some cols \<and> table_schema cols = event_schema cols)"
proof -
  note g = group_logs_groups [OF assms groups_ok_Nil]
  have "\<forall>(et, cols, rows) \<in> set m. column_schema et = Some cols \<and> table_schema cols = event_schema cols"
    using g(1) by (auto simp: groups_ok_def table_schema_event)
  with sorted_group_slices [OF g(1)] g(2) show ?thesis by simp
qed

definition sample_logs :: "Log list" where
  "sample_logs = [sample_log OrderCancelled [7] 9 1, sample_log OrderCancelled [5] 9 0]"

definition sample_rows :: "EventRow list" where
  "sample_rows = [\<lparr>row_block = 9, row_tx_hash = ''0x9'', row_log_index = 1, row_values = [''7'']\<rparr>,
     \<lparr>row_block = 9, row_tx_hash = ''0x9'', row_log_index = 0, row_values = [''5'']\<rparr>]"

lemma sample_log_decodes:
  "decode_log sample_alloy (sample_log OrderCancelled [h] b i)
     = Ok (Some \<lparr>event_type = ''OrderCancelled'', columns = [(''order_hash'', show_nat (unat h))]\<rparr>)"
  by (simp add: decode_log_def topic0_def sample_log_def SIGNATURE_HASH_def
      sample_alloy_def sample_hash_def event_signature_def decode_OrderCancelled_def event_of_def
      render_columns_def value_to_string_def)

lemma sample_groups:
  "group_logs sample_alloy sample_logs ([], 0) = Ok ([(''OrderCancelled'', [''order_hash''], sample_rows)], 0)"
proof -
  note d = sample_log_decodes
  have f: "block_number (sample_log OrderCancelled [h] 9 i) = Some 9"
    "transaction_hash (sample_log OrderCancelled [h] 9 i) = Some 9"
    "log_index (sample_log OrderCancelled [h] 9 i) = Some i" for h i
    by (simp_all add: sample_log_def)
  show ?thesis
    by (simp add: sample_logs_def group_log_def d f push_row_def sample_rows_def)
      (simp add: sample_alloy_def show_nat.simps)
qed

theorem chunk_rows_agree_with_frontfill_witness:
  "slices {#group_batch ''OrderCancelled'' [''order_hash''] (rev sample_rows)#}
    = mset (concat (map (log_rows sample_alloy) sample_logs))"
proof -
  have "sort_by cmp_rows sample_rows = rev sample_rows"
    by (simp add: sort_by_def sample_rows_def cmp_rows_def cmp_u64_def)
  with chunk_rows_agree_with_frontfill [OF sample_groups] show ?thesis by simp
qed

text \<open>C27. The rows of a file are in order of block and log index: the sort is a permutation of the rows
  of the group, ascending by block and, within a block, by log index, and keeps the order of rows
  that have the same block and log index.\<close>

theorem rows_sorted:
  "mset (sort_by cmp_rows rows) = mset rows
    \<and> sorted (map row_key (sort_by cmp_rows rows))
    \<and> filter (\<lambda>row. row_key row = k) (sort_by cmp_rows rows) = filter (\<lambda>row. row_key row = k) rows"
  by (simp add: sort_by_key stable_sort_key_sort_key [unfolded stable_sort_key_def])

text \<open>C21. A successful \<open>write_parquet_file\<close> completes exactly one new file, at the path of its event type
  and chunk, with one batch from whose columns the rows read back exactly, in their order; no writer stays
  open, and no other completed file changes.\<close>

theorem write_parquet_file_completes:
  assumes "writers_ok P V" and "batches_ok P"
    and "write_parquet_file P out et cols rows a b w = (Ok (), w')"
    and "chunk_file out et (a, b) \<notin> data_paths V w"
    and "\<forall>row \<in> set rows. length (row_values row) = length cols"
  shows "finished V w' = finished V w + {#group_batch et cols rows#}
    \<and> data_paths V w' = insert (chunk_file out et (a, b)) (data_paths V w)
    \<and> open_batches V w' = open_batches V w
    \<and> batch_schema (group_batch et cols rows) = event_schema cols
    \<and> read_columns (batch_columns (group_batch et cols rows)) = rows"
  using write_parquet_file_Ok [OF assms(1-3) _ assms(5)] assms(4) read_columns_group [OF assms(5), of et]
  by (simp add: chunk_file_def group_batch_def)

theorem write_parquet_file_completes_witness:
  "\<exists>w'. write_parquet_file memory_api ''out'' ''OrderCancelled'' [''order_hash''] sample_rows 1 9 memory_start = (Ok (), w')
    \<and> finished memory_view w' = {#group_batch ''OrderCancelled'' [''order_hash''] sample_rows#}"
proof -
  have rows: "\<forall>row \<in> set sample_rows. length (row_values row) = length [''order_hash'']"
    by (simp add: sample_rows_def)
  have fit: "columns_fit (''OrderCancelled'', [''order_hash''], sample_rows)"
    by (simp add: sample_rows_def text_bytes_def)
  obtain w' where
    w': "write_parquet_file memory_api ''out'' ''OrderCancelled'' [''order_hash''] sample_rows 1 9 memory_start = (Ok (), w')"
    using write_parquet_file_succeeds [OF memory_api_ok(3,2,5,6) rows fit] by (metis prod.collapse)
  have start: "finished memory_view memory_start = {#}" "data_paths memory_view memory_start = {}"
    by (simp_all add: memory_view_def memory_start_def)
  have "chunk_file ''out'' ''OrderCancelled'' (1, 9) \<notin> data_paths memory_view memory_start" by (simp add: start)
  from write_parquet_file_completes [OF memory_api_ok(3,2) w' this rows] w' start show ?thesis by simp
qed

text \<open>The two programs may share an output directory: no backfill file of an event type has the path of
  a frontfill file, so neither truncates a file of the other.\<close>

lemma output_paths_apart:
  assumes "plain_segment et" and "plain_segment et'"
  shows "chunk_file out et (a, b) \<noteq> data_file out et' t k"
  by (rule chunk_file_not_data_file [OF assms])

text \<open>C33. Grouping never loses count of skipped events: a log that does not decode is skipped without
  a trace, and the count of decoded logs that lack metadata is exact
  up to the largest \<open>u64\<close>, where it saturates; so it is positive exactly when there is one.\<close>

theorem missing_metadata_counted:
  "(\<forall>e. decode_log A lg = Err e \<longrightarrow> group_log A lg s = Ok s)
    \<and> (group_logs A lgs ([], 0) = Ok (m, n) \<longrightarrow>
        unat n = min (length (filter (lacks_metadata A) lgs)) (2 ^ 64 - 1)
        \<and> (0 < n \<longleftrightarrow> (\<exists>lg \<in> set lgs. lacks_metadata A lg)))"
proof (intro conjI allI impI)
  show "group_log A lg s = Ok s" if "decode_log A lg = Err e" for e
    using that by (cases s) (simp add: group_log_def)
  assume "group_logs A lgs ([], 0) = Ok (m, n)"
  from group_logs_groups(3) [OF this groups_ok_Nil]
  have n: "unat n = min (length (filter (lacks_metadata A) lgs)) (2 ^ 64 - 1)" by simp
  then show "unat n = min (length (filter (lacks_metadata A) lgs)) (2 ^ 64 - 1)" .
  have "0 < n \<longleftrightarrow> 0 < unat n" by (simp add: unat_gt_0 word_gt_0)
  also have "\<dots> \<longleftrightarrow> filter (lacks_metadata A) lgs \<noteq> []" by (simp add: n)
  finally show "0 < n \<longleftrightarrow> (\<exists>lg \<in> set lgs. lacks_metadata A lg)" by (auto simp: filter_empty_conv)
qed

theorem missing_metadata_counted_witness:
  "group_log sample_alloy (sample_log OrderCancelled [] 9 0) ([], 3) = Ok ([], 3)
    \<and> \<not> (\<exists>lg \<in> set sample_logs. lacks_metadata sample_alloy lg)"
proof -
  have "decode_log sample_alloy (sample_log OrderCancelled [] 9 0) = Err ''ABI decoding failed''"
    by (simp add: decode_log_def topic0_def sample_log_def SIGNATURE_HASH_def sample_alloy_def
        sample_hash_def event_signature_def decode_OrderCancelled_def)
  with missing_metadata_counted [of sample_alloy "sample_log OrderCancelled [] 9 0" "([], 3)"]
  have "group_log sample_alloy (sample_log OrderCancelled [] 9 0) ([], 3) = Ok ([], 3)" by blast
  moreover from missing_metadata_counted [of sample_alloy _ _ sample_logs] sample_groups
  have "\<not> (\<exists>lg \<in> set sample_logs. lacks_metadata sample_alloy lg)"
    by (metis word_not_simps(1) order_less_irrefl)
  ultimately show ?thesis ..
qed

end
