(* ===== verification/Chunk_Ranges.thy ===== *)
theory Chunk_Ranges
  imports Prelude
begin

text \<open>
  Model of \<open>chunk_ranges\<close> of \<open>src/src/backfill.rs\<close>: the loop that cuts the block interval into chunks.
  Its sums are on \<open>u64\<close>: with overflow checks (a debug build) an overflow panics, without them (a
  release build) it wraps, so whether checks are on is a parameter. The loop does not end for every
  input: it is a partial function, whose value \<open>None\<close> is a loop that never returns.
\<close>

section \<open>The loop\<close>

definition add_u64 :: "bool \<Rightarrow> u64 \<Rightarrow> u64 \<Rightarrow> u64 rs" where
  "add_u64 checks a b = (if checks \<and> 2 ^ 64 \<le> unat a + unat b then Panic else Ok (a + b))"

definition sub_u64 :: "bool \<Rightarrow> u64 \<Rightarrow> u64 \<Rightarrow> u64 rs" where
  "sub_u64 checks a b = (if checks \<and> a < b then Panic else Ok (a - b))"

text \<open>\<open>(current + csize - 1).min(end)\<close>\<close>

definition chunk_end_of :: "bool \<Rightarrow> u64 \<Rightarrow> u64 \<Rightarrow> u64 \<Rightarrow> u64 rs" where
  "chunk_end_of checks stop csize current =
     bind_rs (add_u64 checks current csize) (\<lambda>s.
       bind_rs (sub_u64 checks s 1) (\<lambda>e. Ok (min e stop)))"

partial_function (option) chunk_loop ::
  "bool \<Rightarrow> u64 \<Rightarrow> u64 \<Rightarrow> u64 \<Rightarrow> (u64 \<times> u64) list \<Rightarrow> (u64 \<times> u64) list rs option" where
  "chunk_loop checks stop csize current ranges =
     (if current \<le> stop then
        (case chunk_end_of checks stop csize current of
           Ok chunk_end \<Rightarrow>
             if chunk_end = stop then Some (Ok (ranges @ [(current, chunk_end)]))
             else (case add_u64 checks chunk_end 1 of
                 Ok next_start \<Rightarrow>
                   chunk_loop checks stop csize next_start (ranges @ [(current, chunk_end)])
               | Err e \<Rightarrow> Some (Err e)
               | Panic \<Rightarrow> Some Panic)
         | Err e \<Rightarrow> Some (Err e)
         | Panic \<Rightarrow> Some Panic)
      else Some (Ok ranges))"

definition chunk_ranges :: "bool \<Rightarrow> u64 \<Rightarrow> u64 \<Rightarrow> u64 \<Rightarrow> (u64 \<times> u64) list rs option" where
  "chunk_ranges checks start stop csize = chunk_loop checks stop csize start []"

section \<open>The reference: chunks on the natural numbers\<close>

function nat_chunks :: "nat \<Rightarrow> nat \<Rightarrow> nat \<Rightarrow> (nat \<times> nat) list" where
  "nat_chunks stop csize start =
     (if csize = 0 \<or> stop < start then []
      else (start, min (start + csize - 1) stop) # nat_chunks stop csize (start + csize))"
  by pat_completeness auto
termination
  by (relation "measure (\<lambda>(stop, csize, start). stop + 1 - start)") auto

declare nat_chunks.simps [simp del]

definition nat_range :: "u64 \<times> u64 \<Rightarrow> nat \<times> nat" where
  "nat_range = (\<lambda>(a, b). (unat a, unat b))"

text \<open>The blocks of a range.\<close>

definition blocks_of :: "nat \<times> nat \<Rightarrow> nat list" where
  "blocks_of = (\<lambda>(a, b). [a..<b + 1])"

lemma nat_chunks_blocks:
  "csize \<noteq> 0 \<Longrightarrow> concat (map blocks_of (nat_chunks stop csize start)) = [start..<stop + 1]"
proof (induction stop csize start rule: nat_chunks.induct)
  case (1 stop csize start)
  show ?case
  proof (cases "stop < start")
    case True
    then show ?thesis by (simp add: nat_chunks.simps [of stop csize start])
  next
    case False
    with "1" have IH: "concat (map blocks_of (nat_chunks stop csize (start + csize))) = [start + csize..<stop + 1]"
      by simp
    show ?thesis
    proof (cases "start + csize \<le> stop + 1")
      case True
      with "1.prems" have "min (start + csize - 1) stop + 1 = start + csize" by simp
      with IH have "concat (map blocks_of (nat_chunks stop csize start))
          = [start..<start + csize] @ [start + csize..<stop + 1]"
        using False "1.prems"
        by (subst nat_chunks.simps) (simp add: blocks_of_def del: upt_Suc)
      also have "\<dots> = [start..<stop + 1]"
        using upt_add_eq_append [of start "start + csize" "stop + 1 - (start + csize)"] True by simp
      finally show ?thesis .
    next
      case False2: False
      then have "min (start + csize - 1) stop = stop" by simp
      with IH False2 show ?thesis
        using False "1.prems"
        by (subst nat_chunks.simps) (simp add: blocks_of_def del: upt_Suc)
    qed
  qed
qed

lemma nat_chunks_bounds:
  assumes "(a, b) \<in> set (nat_chunks stop csize start)"
  shows "start \<le> a \<and> a \<le> b \<and> b \<le> stop \<and> b < a + csize"
  using assms
proof (induction stop csize start rule: nat_chunks.induct)
  case (1 stop csize start)
  then show ?case
    by (subst (asm) (2) nat_chunks.simps) (auto split: if_splits)
qed

lemma nat_chunks_distinct: "distinct (map fst (nat_chunks stop csize start))"
proof (induction stop csize start rule: nat_chunks.induct)
  case (1 stop csize start)
  have "start \<notin> set (map fst (nat_chunks stop csize (start + csize)))" if "csize \<noteq> 0"
    using nat_chunks_bounds [of _ _ stop csize "start + csize"] that by fastforce
  with "1" show ?case by (subst nat_chunks.simps) auto
qed

section \<open>The loop computes the reference\<close>

lemma unat_add_small: "unat a + unat b < 2 ^ 64 \<Longrightarrow> unat (a + b) = unat a + unat b"
  for a b :: u64
  by (simp add: unat_word_ariths)

lemma chunk_end_small:
  assumes "unat current + unat csize < 2 ^ 64" and "csize \<noteq> 0"
  shows "\<exists>e. chunk_end_of checks stop csize current = Ok e
    \<and> unat e = min (unat current + unat csize - 1) (unat stop)"
proof -
  have s: "unat (current + csize) = unat current + unat csize" by (rule unat_add_small [OF assms(1)])
  have pos: "0 < unat csize" using assms(2) by (simp add: unat_gt_0)
  then have ge: "1 \<le> current + csize" by (simp add: word_le_nat_alt s)
  have "unat (current + csize - 1) = unat current + unat csize - 1"
    using ge by (simp add: unat_sub word_le_nat_alt s)
  then have "unat (min (current + csize - 1) stop) = min (unat current + unat csize - 1) (unat stop)"
    by (simp add: min_def word_le_nat_alt)
  moreover have "\<not> current + csize < 1" using ge by (simp only: not_less)
  ultimately show ?thesis
    using assms(1) by (simp add: chunk_end_of_def add_u64_def sub_u64_def del: word_less_1)
qed

lemma chunk_loop_computes:
  assumes "csize \<noteq> 0" and "unat stop + unat csize < 2 ^ 64"
  shows "\<exists>rs. chunk_loop checks stop csize current acc = Some (Ok (acc @ rs))
    \<and> map nat_range rs = nat_chunks (unat stop) (unat csize) (unat current)"
proof (induction "unat stop + 1 - unat current" arbitrary: current acc rule: less_induct)
  case less
  show ?case
  proof (cases "current \<le> stop")
    case False
    then show ?thesis
      by (subst chunk_loop.simps, subst nat_chunks.simps) (simp add: word_le_nat_alt)
  next
    case True
    then have cur: "unat current \<le> unat stop" by (simp add: word_le_nat_alt)
    have pos: "0 < unat csize" using assms(1) by (simp add: unat_gt_0)
    have "unat current + unat csize < 2 ^ 64" using cur assms(2) by linarith
    from chunk_end_small [OF this assms(1)] obtain e where
      e: "chunk_end_of checks stop csize current = Ok e" "unat e = min (unat current + unat csize - 1) (unat stop)"
      by blast
    show ?thesis
    proof (cases "e = stop")
      case True
      with e(2) have "unat stop < unat current + unat csize" using pos by (simp add: min_def split: if_splits)
      then have "nat_chunks (unat stop) (unat csize) (unat current + unat csize) = []"
        by (simp add: nat_chunks.simps)
      with True e cur pos \<open>current \<le> stop\<close> show ?thesis
        by (subst chunk_loop.simps, subst nat_chunks.simps) (simp add: nat_range_def)
    next
      case False
      then have "unat e \<noteq> unat stop" by (simp add: word_unat_eq_iff)
      with e(2) have ue: "unat e = unat current + unat csize - 1" and lt: "unat e < unat stop"
        by (simp_all add: min_def split: if_splits)
      have "unat stop < 2 ^ 64" by (rule unsigned_less [THEN order_less_le_trans]) simp
      then have small: "unat e + unat (1 :: u64) < 2 ^ 64" using lt by simp
      then have nx: "unat (e + 1) = unat current + unat csize"
        using unat_add_small [OF small] ue pos by simp
      have dec: "unat stop + 1 - unat (e + 1) < unat stop + 1 - unat current"
        using nx pos cur by linarith
      from less [OF dec, of "acc @ [(current, e)]"] obtain rs where
        rs: "chunk_loop checks stop csize (e + 1) (acc @ [(current, e)]) = Some (Ok ((acc @ [(current, e)]) @ rs))"
        "map nat_range rs = nat_chunks (unat stop) (unat csize) (unat (e + 1))" by blast
      have "add_u64 checks e 1 = Ok (e + 1)" using small by (simp add: add_u64_def)
      with e(1) False True rs(1) have
        "chunk_loop checks stop csize current acc = Some (Ok (acc @ (current, e) # rs))"
        by (subst chunk_loop.simps) simp
      moreover have "map nat_range ((current, e) # rs) = nat_chunks (unat stop) (unat csize) (unat current)"
        using rs(2) nx ue e(2) cur pos
        by (subst nat_chunks.simps) (simp add: nat_range_def)
      ultimately show ?thesis by blast
    qed
  qed
qed

lemma chunk_ranges_computes:
  assumes "csize \<noteq> 0" and "unat stop + unat csize < 2 ^ 64"
  obtains rs where "chunk_ranges checks start stop csize = Some (Ok rs)"
    and "map nat_range rs = nat_chunks (unat stop) (unat csize) (unat start)"
  using chunk_loop_computes [OF assms, of checks start "[]"] by (auto simp: chunk_ranges_def)

lemma nat_chunks_length:
  "size' \<noteq> 0 \<Longrightarrow> start \<le> stop \<Longrightarrow> length (nat_chunks stop size' start) = (stop - start) div size' + 1"
proof (induction stop size' start rule: nat_chunks.induct)
  case (1 stop size' start)
  show ?case
  proof (cases "start + size' \<le> stop")
    case True
    have "(stop - start) div size' = (stop - (start + size')) div size' + 1"
      using True "1.prems" by (simp add: le_div_geq)
    with True "1" show ?thesis by (subst nat_chunks.simps) simp
  next
    case False
    then have "nat_chunks stop size' (start + size') = []" by (subst nat_chunks.simps) simp
    with False "1.prems" show ?thesis by (subst nat_chunks.simps) simp
  qed
qed

section \<open>A chunk size of zero, and overflow\<close>

lemma chunk_end_zero:
  assumes "0 < current" and "current \<le> stop"
  shows "chunk_end_of checks stop 0 current = Ok (current - 1) \<and> current - 1 \<noteq> stop
    \<and> add_u64 checks (current - 1) 1 = Ok current"
proof -
  have lt: "current - 1 < current" using assms(1) by (simp add: word_less_nat_alt unat_minus_one word_gt_0 unat_gt_0)
  then have "current - 1 < stop" using assms(2) by simp
  moreover have "unat (current - 1) + 1 = unat current"
    using assms(1) by (simp add: unat_minus_one word_gt_0 unat_gt_0)
  moreover have "unat current < 2 ^ 64" by (rule unsigned_less [THEN order_less_le_trans]) simp
  moreover have "current \<noteq> 0" using assms(1) by auto
  ultimately show ?thesis
    using assms by (auto simp: chunk_end_of_def add_u64_def sub_u64_def min_def)
qed


lemma chunk_loop_zero_diverges:
  assumes "0 < current" and "current \<le> stop"
  shows "chunk_loop checks stop 0 current acc = None"
proof -
  have "csize = 0 \<longrightarrow> 0 < current \<longrightarrow> \<not> current \<le> stop"
    if "chunk_loop checks stop csize current acc = Some r" for csize r
  proof (rule chunk_loop.raw_induct
      [where P = "\<lambda>checks stop csize current acc r. csize = 0 \<longrightarrow> 0 < current \<longrightarrow> \<not> current \<le> stop", OF _ that],
      intro impI notI)
    fix f checks stop csize current ranges y
    assume IH: "\<And>checks stop csize current ranges y. f checks stop csize current ranges = Some y \<Longrightarrow>
        csize = 0 \<longrightarrow> 0 < current \<longrightarrow> \<not> current \<le> stop"
      and step: "(if current \<le> stop then
        (case chunk_end_of checks stop csize current of
           Ok chunk_end \<Rightarrow>
             if chunk_end = stop then Some (Ok (ranges @ [(current, chunk_end)]))
             else (case add_u64 checks chunk_end 1 of
                 Ok next_start \<Rightarrow> f checks stop csize next_start (ranges @ [(current, chunk_end)])
               | Err e \<Rightarrow> Some (Err e)
               | Panic \<Rightarrow> Some Panic)
         | Err e \<Rightarrow> Some (Err e)
         | Panic \<Rightarrow> Some Panic)
        else Some (Ok ranges)) = Some y"
      and zero: "csize = 0" and pos: "0 < current" and le: "current \<le> stop"
    from step le zero chunk_end_zero [OF pos le, of checks]
    have "f checks stop csize current (ranges @ [(current, current - 1)]) = Some y" by simp
    from IH [OF this] zero pos le show False by simp
  qed
  with assms show ?thesis by (cases "chunk_loop checks stop 0 current acc") auto
qed

text \<open>C11. \<open>chunk_ranges\<close> cuts the interval from \<open>start\<close> to \<open>end\<close> into consecutive chunks: it returns,
  the blocks of the chunks one after the other are exactly the blocks of the interval, each once, no
  chunk has more than \<open>size\<close> blocks, and there are \<open>(end - start) / size + 1\<close> of them. The size must not be zero
  and the sum of \<open>end\<close> and the size must be a \<open>u64\<close>.\<close>

theorem chunk_ranges_partition:
  assumes "csize \<noteq> 0" and "unat stop + unat csize < 2 ^ 64" and "start \<le> stop"
  shows "\<exists>rs. chunk_ranges checks start stop csize = Some (Ok rs)
    \<and> concat (map (\<lambda>(a, b). [unat a..<unat b + 1]) rs) = [unat start..<unat stop + 1]
    \<and> (\<forall>(a, b) \<in> set rs. a \<le> b \<and> unat b - unat a < unat csize)
    \<and> length rs = (unat stop - unat start) div unat csize + 1"
proof -
  from chunk_ranges_computes [OF assms(1,2), of checks start] obtain rs where
    rs: "chunk_ranges checks start stop csize = Some (Ok rs)"
    "map nat_range rs = nat_chunks (unat stop) (unat csize) (unat start)" by blast
  have size: "unat csize \<noteq> 0" using assms(1) by (simp add: unat_eq_zero)
  have "map (\<lambda>(a, b). [unat a..<unat b + 1]) rs = map blocks_of (map nat_range rs)"
    by (auto simp: blocks_of_def nat_range_def)
  then have "concat (map (\<lambda>(a, b). [unat a..<unat b + 1]) rs) = [unat start..<unat stop + 1]"
    using nat_chunks_blocks [OF size, of "unat stop" "unat start"] by (simp only: rs(2))
  moreover have "\<forall>(a, b) \<in> set rs. a \<le> b \<and> unat b - unat a < unat csize"
  proof safe
    fix a b assume "(a, b) \<in> set rs"
    then have "(unat a, unat b) \<in> set (map nat_range rs)" by (force simp: nat_range_def)
    from nat_chunks_bounds [OF this [unfolded rs(2)]]
    show "a \<le> b" "unat b - unat a < unat csize" by (auto simp: word_le_nat_alt)
  qed
  moreover have "length rs = (unat stop - unat start) div unat csize + 1"
    using nat_chunks_length [OF size, of "unat start" "unat stop"] assms(3) rs(2)
    by (metis length_map word_le_nat_alt)
  ultimately show ?thesis using rs(1) by blast
qed

theorem chunk_ranges_partition_witness:
  "chunk_ranges True 3 12 4 = Some (Ok [(3, 6), (7, 10), (11, 12)])
    \<and> (\<exists>rs. chunk_ranges True 3 12 4 = Some (Ok rs)
      \<and> concat (map (\<lambda>(a, b). [unat a..<unat b + 1]) rs) = [3..<13] \<and> length rs = 3)"
proof
  show "chunk_ranges True 3 12 4 = Some (Ok [(3, 6), (7, 10), (11, 12)])"
    by (simp add: chunk_ranges_def chunk_loop.simps chunk_end_of_def add_u64_def sub_u64_def
        min_def unsigned_of_nat)
  show "\<exists>rs. chunk_ranges True 3 12 4 = Some (Ok rs)
      \<and> concat (map (\<lambda>(a, b). [unat a..<unat b + 1]) rs) = [3..<13] \<and> length rs = 3"
    using chunk_ranges_partition [of 4 12 3 True] by (auto simp del: upt_Suc)
qed

section \<open>The last chunk\<close>

text \<open>Where the last chunk starts; all sums before it stay within the interval.\<close>

definition last_start :: "u64 \<Rightarrow> u64 \<Rightarrow> u64 \<Rightarrow> nat" where
  "last_start start stop csize =
     unat start + unat csize * ((unat stop - unat start) div unat csize)"

lemma last_start_step:
  assumes "unat current + unat csize \<le> unat stop" and "unat next_start = unat current + unat csize" and "csize \<noteq> 0"
  shows "last_start next_start stop csize = last_start current stop csize"
proof -
  have "(unat stop - unat current) div unat csize = (unat stop - unat next_start) div unat csize + 1"
    using assms by (simp add: le_div_geq unat_gt_0)
  then show ?thesis using assms(2) by (simp add: last_start_def algebra_simps)
qed

lemma last_start_bounds:
  assumes "current \<le> stop" and "csize \<noteq> 0"
  shows "last_start current stop csize \<le> unat stop" "unat stop < last_start current stop csize + unat csize"
proof -
  have "unat current \<le> unat stop" using assms(1) by (simp add: word_le_nat_alt)
  moreover have "unat csize * ((unat stop - unat current) div unat csize) \<le> unat stop - unat current"
    by (rule times_div_less_eq_dividend)
  moreover have "unat stop - unat current
      < unat csize * ((unat stop - unat current) div unat csize) + unat csize"
    using assms(2) by (simp add: unat_gt_0 dividend_less_times_div add.commute)
  ultimately show "last_start current stop csize \<le> unat stop"
    "unat stop < last_start current stop csize + unat csize"
    unfolding last_start_def by linarith+
qed

text \<open>Up to its last chunk the loop computes the reference, whatever the size.\<close>

lemma chunk_loop_to_last:
  assumes "csize \<noteq> 0" and "current \<le> stop"
  shows "\<exists>pre s. chunk_loop checks stop csize current acc = chunk_loop checks stop csize s (acc @ pre)
    \<and> unat s = last_start current stop csize
    \<and> nat_chunks (unat stop) (unat csize) (unat current) = map nat_range pre @ [(unat s, unat stop)]"
  using assms(2)
proof (induction "unat stop + 1 - unat current" arbitrary: current acc rule: less_induct)
  case less
  have cur: "unat current \<le> unat stop" using less.prems by (simp add: word_le_nat_alt)
  have pos: "0 < unat csize" using assms(1) by (simp add: unat_gt_0)
  have stop: "unat stop < 2 ^ 64" by (rule unsigned_less [THEN order_less_le_trans]) simp
  show ?case
  proof (cases "unat current + unat csize \<le> unat stop")
    case False
    then have "(unat stop - unat current) div unat csize = 0" using cur by simp
    then have "last_start current stop csize = unat current" by (simp add: last_start_def)
    moreover have "min (unat current + unat csize - 1) (unat stop) = unat stop"
      by (rule min_absorb2) (use False in linarith)
    then have "nat_chunks (unat stop) (unat csize) (unat current) = [(unat current, unat stop)]"
      using False cur pos by (subst nat_chunks.simps) (simp add: nat_chunks.simps)
    ultimately show ?thesis by (intro exI [of _ "[]"] exI [of _ current]) simp
  next
    case True
    then have "unat current + unat csize < 2 ^ 64" using stop by linarith
    from chunk_end_small [OF this assms(1)] True obtain e where
      e: "chunk_end_of checks stop csize current = Ok e" "unat e = unat current + unat csize - 1"
      by (metis diff_le_self le_trans min_absorb1)
    have small: "unat e + unat (1 :: u64) < 2 ^ 64" using e(2) True stop pos by simp
    then have nx: "unat (e + 1) = unat current + unat csize"
      using unat_add_small [OF small] e(2) pos by simp
    have "e \<noteq> stop" using e(2) True pos by auto
    moreover have "add_u64 checks e 1 = Ok (e + 1)" using small by (simp add: add_u64_def)
    ultimately have step: "chunk_loop checks stop csize current acc
        = chunk_loop checks stop csize (e + 1) (acc @ [(current, e)])"
      using e(1) less.prems by (subst chunk_loop.simps) simp
    have "unat stop + 1 - unat (e + 1) < unat stop + 1 - unat current" "e + 1 \<le> stop"
      using nx pos cur True by (simp_all add: word_le_nat_alt)
    from less.hyps [OF this, of "acc @ [(current, e)]"] obtain pre s where
      IH: "chunk_loop checks stop csize (e + 1) (acc @ [(current, e)])
          = chunk_loop checks stop csize s ((acc @ [(current, e)]) @ pre)"
        "unat s = last_start (e + 1) stop csize"
        "nat_chunks (unat stop) (unat csize) (unat (e + 1)) = map nat_range pre @ [(unat s, unat stop)]" by blast
    have "nat_chunks (unat stop) (unat csize) (unat current) = map nat_range ((current, e) # pre) @ [(unat s, unat stop)]"
      using IH(3) nx e(2) cur pos True by (subst nat_chunks.simps) (simp add: nat_range_def min_def)
    with step IH(1,2) last_start_step [OF True nx assms(1)] show ?thesis
      by (intro exI [of _ "(current, e) # pre"] exI [of _ s]) simp
  qed
qed

text \<open>The end of the last chunk: the end of the interval, unless the sum exceeds \<open>u64\<close>.\<close>

lemma chunk_end_last:
  assumes "s \<le> stop" and "unat stop < unat s + unat csize" and "csize \<noteq> 0"
  shows "unat s + unat csize < 2 ^ 64 \<or> \<not> checks \<and> unat s + unat csize = 2 ^ 64 \<Longrightarrow>
      chunk_end_of checks stop csize s = Ok stop"
    and "2 ^ 64 \<le> unat s + unat csize \<Longrightarrow> chunk_end_of True stop csize s = Panic"
    and "2 ^ 64 < unat s + unat csize \<Longrightarrow> \<exists>e. chunk_end_of False stop csize s = Ok e \<and> e < s"
proof -
  show "chunk_end_of checks stop csize s = Ok stop"
    if "unat s + unat csize < 2 ^ 64 \<or> \<not> checks \<and> unat s + unat csize = 2 ^ 64"
    using that
  proof
    assume "unat s + unat csize < 2 ^ 64"
    from chunk_end_small [OF this assms(3), of checks stop] obtain e where
      e: "chunk_end_of checks stop csize s = Ok e" "unat e = min (unat s + unat csize - 1) (unat stop)" by blast
    have "min (unat s + unat csize - 1) (unat stop) = unat stop"
      by (rule min_absorb2) (use assms(2) in linarith)
    with e(2) have "e = stop" by (simp add: word_unat_eq_iff)
    with e(1) show ?thesis by simp
  next
    assume w: "\<not> checks \<and> unat s + unat csize = 2 ^ 64"
    then have "unat (s + csize) = 0" by (simp add: unat_word_ariths)
    then have "s + csize = 0" by (simp only: unat_eq_zero)
    moreover have "min (- 1) stop = stop" by (rule min_absorb2) simp
    ultimately show ?thesis using w by (simp add: chunk_end_of_def add_u64_def sub_u64_def)
  qed
  show "chunk_end_of True stop csize s = Panic" if "2 ^ 64 \<le> unat s + unat csize"
    using that by (simp add: chunk_end_of_def add_u64_def)
  show "\<exists>e. chunk_end_of False stop csize s = Ok e \<and> e < s" if big: "2 ^ 64 < unat s + unat csize"
  proof -
    have c: "unat csize < 2 ^ 64" by (rule unsigned_less [THEN order_less_le_trans]) simp
    have "unat s < 2 ^ 64" by (rule unsigned_less [THEN order_less_le_trans]) simp
    then have sum: "unat (s + csize) = unat s + unat csize - 2 ^ 64"
      using big c by (simp add: unat_word_ariths mod_if)
    then have "s + csize \<noteq> 0" using big by (metis unat_0 zero_less_diff order_less_irrefl)
    then have "unat (s + csize - 1) = unat s + unat csize - 2 ^ 64 - 1" by (simp add: unat_minus_one sum)
    then have less: "s + csize - 1 < s" using big c by (simp add: word_less_nat_alt)
    then have "min (s + csize - 1) stop = s + csize - 1" using assms(1) by simp
    with less show ?thesis by (simp add: chunk_end_of_def add_u64_def sub_u64_def)
  qed
qed

text \<open>The chunks found stay; without overflow checks the loop neither fails nor panics.\<close>

lemma chunk_loop_keeps:
  assumes "chunk_loop False stop csize current acc = Some r"
  shows "\<exists>rs. r = Ok rs \<and> set acc \<subseteq> set rs"
proof -
  have "\<not> checks \<longrightarrow> (\<exists>rs. r = Ok rs \<and> set acc \<subseteq> set rs)"
    if "chunk_loop checks stop csize current acc = Some r" for checks
  proof (rule chunk_loop.raw_induct
      [where P = "\<lambda>checks stop csize current acc r. \<not> checks \<longrightarrow> (\<exists>rs. r = Ok rs \<and> set acc \<subseteq> set rs)", OF _ that],
      intro impI)
    fix f checks stop csize current ranges y
    assume IH: "\<And>checks stop csize current ranges y. f checks stop csize current ranges = Some y \<Longrightarrow>
        \<not> checks \<longrightarrow> (\<exists>rs. y = Ok rs \<and> set ranges \<subseteq> set rs)"
      and step: "(if current \<le> stop then
        (case chunk_end_of checks stop csize current of
           Ok chunk_end \<Rightarrow>
             if chunk_end = stop then Some (Ok (ranges @ [(current, chunk_end)]))
             else (case add_u64 checks chunk_end 1 of
                 Ok next_start \<Rightarrow> f checks stop csize next_start (ranges @ [(current, chunk_end)])
               | Err e \<Rightarrow> Some (Err e)
               | Panic \<Rightarrow> Some Panic)
         | Err e \<Rightarrow> Some (Err e)
         | Panic \<Rightarrow> Some Panic)
        else Some (Ok ranges)) = Some y"
      and no_checks: "\<not> checks"
    obtain e where e: "chunk_end_of checks stop csize current = Ok e" "add_u64 checks e 1 = Ok (e + 1)"
      using no_checks by (simp add: chunk_end_of_def add_u64_def sub_u64_def)
    show "\<exists>rs. y = Ok rs \<and> set ranges \<subseteq> set rs"
    proof (cases "current \<le> stop \<and> e \<noteq> stop")
      case True
      with step e have "f checks stop csize (e + 1) (ranges @ [(current, e)]) = Some y" by simp
      from IH [OF this] no_checks show ?thesis by auto
    next
      case False
      with step e show ?thesis by (auto split: if_splits)
    qed
  qed
  with assms show ?thesis by blast
qed

section \<open>The inputs outside the partition property\<close>

lemma chunk_ranges_empty:
  assumes "stop < start"
  shows "chunk_ranges checks start stop csize = Some (Ok [])"
proof -
  from assms have "\<not> start \<le> stop" by simp
  then show ?thesis by (simp add: chunk_ranges_def chunk_loop.simps [of checks stop csize start])
qed

lemma chunk_ranges_size_zero:
  assumes "start \<le> stop"
  shows "chunk_ranges checks start stop 0
    = (if 0 < start then None else if checks then Some Panic else Some (Ok [(0, stop)]))"
proof (cases "0 < start")
  case True
  with assms show ?thesis by (simp add: chunk_ranges_def chunk_loop_zero_diverges)
next
  case False
  then have "start = 0" by (metis word_gt_0)
  moreover have "min (- 1) stop = stop" by (rule min_absorb2) simp
  ultimately show ?thesis
    by (simp add: chunk_ranges_def chunk_loop.simps [of checks stop 0 0] chunk_end_of_def add_u64_def
        sub_u64_def)
qed

lemma chunk_ranges_last:
  assumes "start \<le> stop" and "csize \<noteq> 0"
  obtains pre s where "chunk_ranges checks start stop csize = chunk_loop checks stop csize s pre"
    and "unat s = last_start start stop csize" "s \<le> stop" "unat stop < unat s + unat csize"
    and "concat (map (\<lambda>(a, b). [unat a..<unat b + 1]) (pre @ [(s, stop)])) = [unat start..<unat stop + 1]"
proof -
  from chunk_loop_to_last [OF assms(2,1), of checks "[]"] obtain pre s where
    l: "chunk_loop checks stop csize start [] = chunk_loop checks stop csize s pre"
      "unat s = last_start start stop csize"
      "nat_chunks (unat stop) (unat csize) (unat start) = map nat_range pre @ [(unat s, unat stop)]" by auto
  have "map (\<lambda>(a, b). [unat a..<unat b + 1]) (pre @ [(s, stop)])
      = map blocks_of (nat_chunks (unat stop) (unat csize) (unat start))"
    unfolding l(3) by (auto simp: blocks_of_def nat_range_def)
  then have blocks: "concat (map (\<lambda>(a, b). [unat a..<unat b + 1]) (pre @ [(s, stop)])) = [unat start..<unat stop + 1]"
    using nat_chunks_blocks [of "unat csize" "unat stop" "unat start"] assms(2)
    by (simp only: unat_eq_zero not_False_eq_True)
  from last_start_bounds [OF assms] l(2) have "s \<le> stop" "unat stop < unat s + unat csize"
    by (simp_all add: word_le_nat_alt)
  from that [OF _ l(2) this blocks] l(1) show thesis by (simp add: chunk_ranges_def)
qed

text \<open>C32. \<open>chunk_ranges\<close> on every input. An empty interval has no chunks. With a chunk size of zero, which the
  validation in \<open>run\<close> excludes, the loop never ends, but for an interval that starts at block 0. With a
  positive size everything depends on the start of the last chunk plus the size, a sum computed before it is
  cut at \<open>end\<close>: while it is a \<open>u64\<close>, or exactly \<open>2 ^ 64\<close> in a build without overflow checks, the chunks partition the
  interval; beyond, a build with overflow checks panics, and one without, if the loop ends at all,
  returns the last chunk inverted, with an end before its start; so \<open>chunk_ranges(2, 100, u64::MAX)\<close>
  yields \<open>(2, 0)\<close> and then \<open>(1, 100)\<close>, which fetches a block before \<open>start\<close>.\<close>

theorem chunk_ranges_boundaries:
  "(stop < start \<longrightarrow> chunk_ranges checks start stop csize = Some (Ok []))
    \<and> (start \<le> stop \<longrightarrow> chunk_ranges checks start stop 0
        = (if 0 < start then None else if checks then Some Panic else Some (Ok [(0, stop)])))
    \<and> (start \<le> stop \<and> csize \<noteq> 0 \<longrightarrow>
        (if last_start start stop csize + unat csize < 2 ^ 64
            \<or> \<not> checks \<and> last_start start stop csize + unat csize = 2 ^ 64
         then \<exists>rs. chunk_ranges checks start stop csize = Some (Ok rs)
           \<and> concat (map (\<lambda>(a, b). [unat a..<unat b + 1]) rs) = [unat start..<unat stop + 1]
         else if checks then chunk_ranges checks start stop csize = Some Panic
         else \<forall>r. chunk_ranges checks start stop csize = Some r \<longrightarrow>
           (\<exists>rs a b. r = Ok rs \<and> (a, b) \<in> set rs \<and> unat a = last_start start stop csize \<and> b < a)))
    \<and> chunk_ranges False 2 100 (2 ^ 64 - 1) = Some (Ok [(2, 0), (1, 100)])"
proof (intro conjI impI)
  show "chunk_ranges checks start stop csize = Some (Ok [])" if "stop < start"
    using that by (rule chunk_ranges_empty)
  show "chunk_ranges checks start stop 0
      = (if 0 < start then None else if checks then Some Panic else Some (Ok [(0, stop)]))" if "start \<le> stop"
    using that by (rule chunk_ranges_size_zero)
  show "chunk_ranges False 2 100 (2 ^ 64 - 1) = Some (Ok [(2, 0), (1, 100)])"
    by (simp add: chunk_ranges_def chunk_loop.simps chunk_end_of_def add_u64_def sub_u64_def min_def)
next
  assume "start \<le> stop \<and> csize \<noteq> 0"
  then have i: "start \<le> stop" "csize \<noteq> 0" by simp_all
  obtain pre s where l: "chunk_ranges checks start stop csize = chunk_loop checks stop csize s pre"
    "unat s = last_start start stop csize" "s \<le> stop" "unat stop < unat s + unat csize"
    "concat (map (\<lambda>(a, b). [unat a..<unat b + 1]) (pre @ [(s, stop)])) = [unat start..<unat stop + 1]"
    using i by (rule chunk_ranges_last)
  note last = chunk_end_last [OF l(3,4) i(2)]
  have inverted: "\<exists>rs a b. r = Ok rs \<and> (a, b) \<in> set rs \<and> unat a = last_start start stop csize \<and> b < a"
    if big: "2 ^ 64 < unat s + unat csize" and r: "chunk_ranges checks start stop csize = Some r"
      and no: "\<not> checks" for r
  proof -
    from last(3) [OF big] obtain e where e: "chunk_end_of False stop csize s = Ok e" "e < s" by blast
    then have "e \<noteq> stop" using l(3) by auto
    with e(1) l(1,3) r no have "chunk_loop False stop csize (e + 1) (pre @ [(s, e)]) = Some r"
      by (simp add: chunk_loop.simps [of False stop csize s] add_u64_def)
    from chunk_loop_keeps [OF this] obtain rs where "r = Ok rs" "(s, e) \<in> set rs" by auto
    with e(2) l(2) show ?thesis by blast
  qed
  show "if last_start start stop csize + unat csize < 2 ^ 64
      \<or> \<not> checks \<and> last_start start stop csize + unat csize = 2 ^ 64
    then \<exists>rs. chunk_ranges checks start stop csize = Some (Ok rs)
      \<and> concat (map (\<lambda>(a, b). [unat a..<unat b + 1]) rs) = [unat start..<unat stop + 1]
    else if checks then chunk_ranges checks start stop csize = Some Panic
    else \<forall>r. chunk_ranges checks start stop csize = Some r \<longrightarrow>
      (\<exists>rs a b. r = Ok rs \<and> (a, b) \<in> set rs \<and> unat a = last_start start stop csize \<and> b < a)"
    (is "if ?fits then ?partition else if checks then ?panic else ?inverted")
  proof (cases ?fits)
    case True
    then have "chunk_end_of checks stop csize s = Ok stop" using last(1) [of checks] by (simp add: l(2))
    then have "chunk_ranges checks start stop csize = Some (Ok (pre @ [(s, stop)]))"
      using l(1,3) by (simp add: chunk_loop.simps [of checks stop csize s])
    with l(5) True show ?thesis by (simp only: if_True) blast
  next
    case False
    show ?thesis
    proof (cases checks)
      case True
      with False last(2) l(2) have "chunk_end_of checks stop csize s = Panic" by simp
      then have "chunk_ranges checks start stop csize = Some Panic"
        using l(1,3) by (simp add: chunk_loop.simps [of checks stop csize s])
      with False True show ?thesis by (simp only: if_True if_False)
    next
      case no: False
      with False l(2) have "2 ^ 64 < unat s + unat csize" by simp
      with inverted no have ?inverted by blast
      with False no show ?thesis by (simp only: if_False)
    qed
  qed
qed

theorem chunk_ranges_boundaries_witness:
  "chunk_ranges False 7 6 0 = Some (Ok []) \<and> chunk_ranges False 1 10 0 = None
    \<and> chunk_ranges True 2 100 18446744073709551615 = Some Panic
    \<and> (\<exists>rs. chunk_ranges True 2 100 18446744073709551514 = Some (Ok rs))"
proof -
  have "last_start 2 100 18446744073709551615 = 2" "last_start 2 100 18446744073709551514 = 2"
    by (simp_all add: last_start_def)
  with chunk_ranges_boundaries [of 6 7 False 0] chunk_ranges_boundaries [of 10 1 False 0]
    chunk_ranges_boundaries [of 100 2 True 18446744073709551615]
    chunk_ranges_boundaries [of 100 2 True 18446744073709551514]
  show ?thesis by auto
qed

end
