(* ===== verification/Rate_Limiter.thy ===== *)
theory Rate_Limiter
  imports Prelude
begin

text \<open>
  Model of \<open>RateLimiter\<close> of \<open>src/src/backfill.rs\<close>: a \<open>tokio\<close> semaphore whose permits are consumed by
  \<open>acquire\<close> (the permit is forgotten) and topped up by the task of \<open>spawn_refill\<close>. A turn of that task
  reads the available permits and adds the missing ones in two calls, between which permits may be
  acquired: it is two steps of the model. An acquisition is the moment at which the semaphore takes
  the permit from the available ones for a caller.
\<close>

section \<open>The limiter\<close>

record RateLimiter =
  semaphore :: usize
  max_per_second :: usize
  refill_read :: "usize option"

text \<open>\<open>Semaphore::MAX_PERMITS\<close>, \<open>usize::MAX >> 3\<close>; \<open>Semaphore::new\<close> and \<open>add_permits\<close> panic above it.\<close>

definition MAX_PERMITS :: usize where
  "MAX_PERMITS = drop_bit 3 (- 1)"

lemma MAX_PERMITS_value: "MAX_PERMITS = 2305843009213693951"
  by (simp add: MAX_PERMITS_def mask_eq_exp_minus_1)

definition RateLimiter_new :: "usize \<Rightarrow> RateLimiter rs" where
  "RateLimiter_new n =
     (if MAX_PERMITS < n then Panic
      else Ok \<lparr>semaphore = n, max_per_second = n, refill_read = None\<rparr>)"

text \<open>\<open>None\<close>: there is no permit, the caller waits.\<close>

definition acquire :: "RateLimiter \<Rightarrow> RateLimiter option" where
  "acquire l = (if semaphore l = 0 then None else Some (l\<lparr>semaphore := semaphore l - 1\<rparr>))"

text \<open>\<open>let available = self.semaphore.available_permits();\<close>\<close>

definition refill_begin :: "RateLimiter \<Rightarrow> RateLimiter" where
  "refill_begin l = l\<lparr>refill_read := Some (semaphore l)\<rparr>"

definition add_permits :: "usize \<Rightarrow> RateLimiter \<Rightarrow> RateLimiter rs" where
  "add_permits n l =
     (if unat MAX_PERMITS < unat (semaphore l) + unat n then Panic
      else Ok (l\<lparr>semaphore := semaphore l + n\<rparr>))"

definition refill_end :: "RateLimiter \<Rightarrow> RateLimiter rs" where
  "refill_end l = (case refill_read l of
      None \<Rightarrow> Ok l
    | Some available \<Rightarrow>
        if available < max_per_second l
        then map_rs_value (\<lambda>l'. l'\<lparr>refill_read := None\<rparr>) (add_permits (max_per_second l - available) l)
        else Ok (l\<lparr>refill_read := None\<rparr>))"

section \<open>The contract: a token bucket\<close>

datatype bucket_op = Take | Read | Add

text \<open>
  A bucket of at most \<open>cap\<close> tokens: taking one uses it up, reading changes nothing, and a refill never
  fills it above \<open>cap\<close> and never fails.
\<close>

locale token_bucket =
  fixes take_token :: "'s \<Rightarrow> 's option"
    and read_tokens :: "'s \<Rightarrow> 's"
    and add_tokens :: "'s \<Rightarrow> 's rs"
    and tokens :: "'s \<Rightarrow> nat"
    and inv :: "'s \<Rightarrow> bool"
    and cap :: nat
  assumes take_inv: "inv s \<Longrightarrow> take_token s = Some s' \<Longrightarrow> inv s' \<and> tokens s = tokens s' + 1"
    and read_inv: "inv s \<Longrightarrow> inv (read_tokens s) \<and> tokens (read_tokens s) = tokens s"
    and add_inv: "inv s \<Longrightarrow> \<exists>s'. add_tokens s = Ok s' \<and> inv s'"
    and below_cap: "inv s \<Longrightarrow> tokens s \<le> cap"
    and take_some: "inv s \<Longrightarrow> 0 < tokens s \<Longrightarrow> take_token s \<noteq> None"
begin

inductive bucket_run :: "'s \<Rightarrow> bucket_op list \<Rightarrow> 's \<Rightarrow> bool" for s0 where
  bucket_empty: "bucket_run s0 [] s0"
| bucket_take: "bucket_run s0 ops s \<Longrightarrow> take_token s = Some s' \<Longrightarrow> bucket_run s0 (ops @ [Take]) s'"
| bucket_read: "bucket_run s0 ops s \<Longrightarrow> bucket_run s0 (ops @ [Read]) (read_tokens s)"
| bucket_add: "bucket_run s0 ops s \<Longrightarrow> add_tokens s = Ok s' \<Longrightarrow> bucket_run s0 (ops @ [Add]) s'"

text \<open>The tokens taken are bounded by the refills, wherever the sequence of operations starts.\<close>

lemma takes_bounded:
  assumes "bucket_run s0 ops s" and "inv s0"
  shows "inv s \<and> count_list ops Take + tokens s \<le> cap * (1 + count_list ops Add)"
  using assms
proof (induction rule: bucket_run.induct)
  case bucket_empty
  then show ?case by (auto dest: below_cap)
next
  case (bucket_take ops s s')
  then show ?case using take_inv [of s s'] by simp
next
  case (bucket_read ops s)
  then show ?case using read_inv [of s] by simp
next
  case (bucket_add ops s s')
  then have s': "inv s'" using add_inv [of s] by auto
  from bucket_add have "count_list ops Take \<le> cap * (1 + count_list ops Add)" by simp
  with below_cap [OF s'] s' show ?case by simp
qed

lemma never_fails: "bucket_run s0 ops s \<Longrightarrow> inv s0 \<Longrightarrow> add_tokens s \<noteq> Panic"
  using add_inv takes_bounded by fastforce

end

section \<open>The limiter is a token bucket\<close>

text \<open>The permits a refill in progress will add are accounted for.\<close>

definition limiter_inv :: "usize \<Rightarrow> RateLimiter \<Rightarrow> bool" where
  "limiter_inv n l \<longleftrightarrow> max_per_second l = n \<and> n \<le> MAX_PERMITS \<and> semaphore l \<le> n
     \<and> (\<forall>available. refill_read l = Some available \<longrightarrow> semaphore l \<le> available \<and> available \<le> n)"

lemma RateLimiter_new_inv: "RateLimiter_new n = Ok l \<Longrightarrow> limiter_inv n l"
  by (auto simp: RateLimiter_new_def limiter_inv_def split: if_splits)

lemma acquire_inv:
  assumes "limiter_inv n l" and "acquire l = Some l'"
  shows "limiter_inv n l'" and "unat (semaphore l) = unat (semaphore l') + 1"
    and "max_per_second l' = max_per_second l"
proof -
  from assms(2) have nz: "semaphore l \<noteq> 0" and l': "l' = l\<lparr>semaphore := semaphore l - 1\<rparr>"
    by (auto simp: acquire_def split: if_splits)
  have u: "unat (semaphore l - 1) = unat (semaphore l) - 1" and pos: "0 < unat (semaphore l)"
    using nz by (simp_all add: unat_minus_one unat_gt_0)
  then show "unat (semaphore l) = unat (semaphore l') + 1" by (simp add: l')
  have "semaphore l - 1 \<le> semaphore l" using u by (simp add: word_le_nat_alt)
  with assms(1) show "limiter_inv n l'" by (auto simp: limiter_inv_def l' intro: order_trans)
  show "max_per_second l' = max_per_second l" by (simp add: l')
qed

lemma refill_begin_inv: "limiter_inv n l \<Longrightarrow> limiter_inv n (refill_begin l)"
  by (simp add: limiter_inv_def refill_begin_def)

lemma refill_end_inv:
  assumes "limiter_inv n l"
  shows "\<exists>l'. refill_end l = Ok l' \<and> limiter_inv n l'
    \<and> (refill_read l \<noteq> None \<longrightarrow> refill_read l' = None \<and>
        unat (semaphore l') = unat (semaphore l) + (unat n - unat (the (refill_read l))))"
proof (cases "refill_read l")
  case None
  with assms show ?thesis by (simp add: refill_end_def)
next
  case (Some a)
  with assms have le: "semaphore l \<le> a" "a \<le> n" and n: "max_per_second l = n" "n \<le> MAX_PERMITS"
    by (auto simp: limiter_inv_def)
  show ?thesis
  proof (cases "a < n")
    case False
    with le Some assms show ?thesis by (auto simp: refill_end_def limiter_inv_def)
  next
    case True
    have d: "unat (n - a) = unat n - unat a" using le(2) by (simp add: unat_sub)
    have b: "unat (semaphore l) + unat (n - a) \<le> unat n"
      using le by (simp add: d word_le_nat_alt)
    have "unat n < 2 ^ 64" by (rule unsigned_less [THEN order_less_le_trans]) simp
    then have s: "unat (semaphore l + (n - a)) = unat (semaphore l) + unat (n - a)"
      using b by (simp add: unat_word_ariths)
    have "unat (semaphore l) + unat (n - a) \<le> unat MAX_PERMITS"
      using b n(2) by (simp add: word_le_nat_alt)
    with True Some n s b d show ?thesis
      by (auto simp: refill_end_def add_permits_def limiter_inv_def word_le_nat_alt)
  qed
qed

interpretation limiter: token_bucket acquire refill_begin refill_end "\<lambda>l. unat (semaphore l)"
    "limiter_inv n" "unat n" for n
proof unfold_locales
  show "limiter_inv n (refill_begin l) \<and> unat (semaphore (refill_begin l)) = unat (semaphore l)"
    if "limiter_inv n l" for l
    using that by (simp add: refill_begin_inv) (simp add: refill_begin_def)
  show "\<exists>l'. refill_end l = Ok l' \<and> limiter_inv n l'" if "limiter_inv n l" for l
    using refill_end_inv [OF that] by blast
  show "limiter_inv n l' \<and> unat (semaphore l) = unat (semaphore l') + 1"
    if "limiter_inv n l" "acquire l = Some l'" for l l'
    using acquire_inv(1,2) [OF that] by (rule conjI)
  show "unat (semaphore l) \<le> unat n" if "limiter_inv n l" for l
    using that by (simp add: limiter_inv_def word_le_nat_alt)
  show "acquire l \<noteq> None" if "0 < unat (semaphore l)" for l
    using that by (simp add: acquire_def unat_gt_0)
qed

text \<open>A refill that no acquisition interrupts fills the semaphore to the limit exactly, and after it
  a caller that waits obtains a permit.\<close>

lemma refill_restores_limit:
  assumes "limiter_inv n l" and "n \<noteq> 0"
  shows "\<exists>l'. refill_end (refill_begin l) = Ok l' \<and> semaphore l' = n \<and> acquire l' \<noteq> None"
proof -
  from refill_end_inv [OF refill_begin_inv [OF assms(1)]] obtain l' where
    l': "refill_end (refill_begin l) = Ok l'" "limiter_inv n l'"
    "unat (semaphore l') = unat (semaphore l) + (unat n - unat (semaphore l))"
    by (auto simp: refill_begin_def)
  have "unat (semaphore l) \<le> unat n" by (rule limiter.below_cap [OF assms(1)])
  with l'(3) have "semaphore l' = n" by (simp add: word_unat_eq_iff)
  with l'(1) assms(2) show ?thesis by (simp add: acquire_def)
qed

section \<open>Properties\<close>

text \<open>The rate limit: over any interleaving of acquisitions with the two halves of the refills, the
  permits acquired are at most the limit times one more than the refills, the available permits
  never exceed the limit, and no refill panics.\<close>

lemma acquisitions_bounded:
  assumes "RateLimiter_new n = Ok l0" and "limiter.bucket_run l0 ops l"
  shows "count_list ops Take \<le> unat n * (1 + count_list ops Add)
    \<and> semaphore l \<le> n \<and> refill_end l \<noteq> Panic"
proof -
  note inv = RateLimiter_new_inv [OF assms(1)]
  from limiter.takes_bounded [OF assms(2) inv] limiter.never_fails [OF assms(2) inv]
  show ?thesis by (simp add: limiter_inv_def)
qed

end
