(* ===== verification/Backfill.thy ===== *)
theory Backfill
  imports Backfill_Chunk Chunk_Ranges Rate_Limiter
begin

text \<open>
  Model of \<open>run\<close> of \<open>src/src/backfill.rs\<close>: validation and set-up, then the concurrent processing of the
  chunks. The chunk futures of \<open>for_each_concurrent\<close> run on one task, at most \<open>parallelism\<close> at a time, and
  interleave at their await points: obtaining a permit, the answer of the node and the lock of the
  failure list. Each future is a program counter (\<open>stage\<close>); a step of the machine is what one future
  does between two await points, or half a turn of the refill task. A run carries the trace of its
  steps, which names the chunk, the filter of a request and the answer of the node.
\<close>

section \<open>Configuration and set-up\<close>

record BackfillConfig =
  start_block :: u64
  end_block :: u64
  chunk_size_by_block_number :: u64
  parallelism :: usize
  rate_limit_per_second :: usize
  rpc_http_url :: string
  rpc_http_key :: "string option"
  rpc_http_auth_header :: string
  rpc_http_auth_scheme :: string
  output_dir :: string

text \<open>
  Parameters: the decoders and the file libraries, whether the build checks overflow, and what is used of
  \<open>url\<close>, \<open>http\<close> and \<open>reqwest\<close>.
\<close>

record ('w, 'f, 'h, 'u, 'n, 'v) bf_env =
  bf_alloy :: alloy
  bf_address_from_str :: "string \<Rightarrow> Address rs"
  bf_parquet :: "('w, 'f, 'h) parquet_api"
  bf_overflow_checks :: bool
  bf_url_parse :: "string \<Rightarrow> 'u rs"
  bf_header_name :: "string \<Rightarrow> 'n rs"
  bf_header_value :: "string \<Rightarrow> 'v rs"
  bf_client_build :: "('n \<times> 'v) list \<Rightarrow> unit rs"

definition build_http_url :: "(string \<Rightarrow> 'u rs) \<Rightarrow> string \<Rightarrow> 'u rs" where
  "build_http_url url_parse base = url_parse base"

definition build_auth_headers ::
  "(string \<Rightarrow> 'n rs) \<Rightarrow> (string \<Rightarrow> 'v rs) \<Rightarrow> string option \<Rightarrow> string \<Rightarrow> string \<Rightarrow> ('n \<times> 'v) list rs" where
  "build_auth_headers header_name_from_bytes header_value_from_str key header_name header_scheme =
     (case key of
        None \<Rightarrow> Ok []
      | Some key \<Rightarrow>
          if key = [] then Ok []
          else bind_rs (header_name_from_bytes header_name) (\<lambda>name.
            let header_value = (if header_scheme = [] then key else header_scheme @ '' '' @ key)
            in bind_rs (header_value_from_str header_value) (\<lambda>value. Ok [(name, value)])))"

definition validate_config :: "BackfillConfig \<Rightarrow> unit rs" where
  "validate_config cfg =
     (if end_block cfg < start_block cfg then Err ''start-block must be <= end-block''
      else if chunk_size_by_block_number cfg = 0 then Err ''chunk-size-by-block-number must be > 0''
      else if parallelism cfg = 0 then Err ''parallelism must be > 0''
      else if rate_limit_per_second cfg = 0 then Err ''rate-limit-per-second must be > 0''
      else Ok ())"

definition set_up ::
  "('w, 'f, 'h, 'u, 'n, 'v) bf_env \<Rightarrow> BackfillConfig \<Rightarrow> (RateLimiter \<times> Address list) rs" where
  "set_up E cfg =
     bind_rs (validate_config cfg) (\<lambda>_.
       bind_rs (RateLimiter_new (rate_limit_per_second cfg)) (\<lambda>limiter.
         bind_rs (build_http_url (bf_url_parse E) (rpc_http_url cfg)) (\<lambda>url.
           bind_rs (build_auth_headers (bf_header_name E) (bf_header_value E)
               (rpc_http_key cfg) (rpc_http_auth_header cfg) (rpc_http_auth_scheme cfg)) (\<lambda>headers.
             bind_rs (bf_client_build E headers) (\<lambda>_.
               bind_rs (contract_addresses (bf_address_from_str E)) (\<lambda>addresses.
                 Ok (limiter, addresses)))))))"

section \<open>State\<close>

type_synonym chunk = "u64 \<times> u64"

text \<open>
  Where a chunk future is: waiting for a permit, waiting for the logs, writing the remaining files (with
  the count of logs without metadata), pushing a failure, or at its end.
\<close>

datatype stage = Waiting | Fetching | Writing by_event u64 | Failing string stage | Complete

record 'w bf_state =
  disk :: 'w
  rate_limiter :: RateLimiter
  filter_addresses :: "Address list"
  chunk_queue :: "chunk list"
  running :: "(chunk \<times> stage) list"
  failures :: "string list"
  panicked :: bool

text \<open>\<open>None\<close>: the loop of \<open>chunk_ranges\<close> does not end.\<close>

definition backfill_start ::
  "('w, 'f, 'h, 'u, 'n, 'v) bf_env \<Rightarrow> BackfillConfig \<Rightarrow> 'w \<Rightarrow> 'w bf_state rs option" where
  "backfill_start E cfg w = (case set_up E cfg of
      Err e \<Rightarrow> Some (Err e)
    | Panic \<Rightarrow> Some Panic
    | Ok (limiter, addresses) \<Rightarrow>
        map_option (map_rs_value (\<lambda>ranges.
            \<lparr>disk = w, rate_limiter = limiter, filter_addresses = addresses, chunk_queue = ranges,
             running = [], failures = [], panicked = False\<rparr>))
          (chunk_ranges (bf_overflow_checks E) (start_block cfg) (end_block cfg)
             (chunk_size_by_block_number cfg)))"

section \<open>A chunk\<close>

definition chunk_filter :: "Address list \<Rightarrow> chunk \<Rightarrow> Filter" where
  "chunk_filter addresses = (\<lambda>(a, b).
     \<lparr>filter_address = addresses, from_block = Some (Number a), to_block = Some (Number b)\<rparr>)"

definition fetch_failed :: "chunk \<Rightarrow> anyhow \<Rightarrow> string" where
  "fetch_failed = (\<lambda>(a, b) e. ''fetch failed for '' @ show_u64 a @ ''-'' @ show_u64 b @ '': '' @ e)"

definition write_failed :: "chunk \<Rightarrow> string \<Rightarrow> anyhow \<Rightarrow> string" where
  "write_failed = (\<lambda>(a, b) et e.
     ''write failed for '' @ show_u64 a @ ''-'' @ show_u64 b @ ''/'' @ et @ '': '' @ e)"

definition metadata_missing :: "u64 \<Rightarrow> chunk \<Rightarrow> string" where
  "metadata_missing n = (\<lambda>(a, b).
     ''metadata missing for '' @ show_u64 n @ '' decoded logs in '' @ show_u64 a @ ''-'' @ show_u64 b)"

text \<open>From the answer of the node to the iteration over \<open>by_event\<close>.\<close>

definition receive_logs :: "alloy \<Rightarrow> hash_order \<Rightarrow> chunk \<Rightarrow> Log list rs \<Rightarrow> stage rs" where
  "receive_logs A order c answer = (case answer of
      Err e \<Rightarrow> Ok (Failing (fetch_failed c e) Complete)
    | Panic \<Rightarrow> Panic
    | Ok logs \<Rightarrow> map_rs_value (\<lambda>(by_event, n). Writing (hash_entries order by_event) n)
        (group_logs A logs ([], 0)))"

text \<open>What a future does next with its files and failures, and the failures it pushes.\<close>

fun chunk_work ::
  "('w, 'f, 'h) parquet_api \<Rightarrow> string \<Rightarrow> chunk \<Rightarrow> stage \<Rightarrow> ('w, stage \<times> string list) io" where
  "chunk_work P out c (Failing message stg) w = (Ok (stg, [message]), w)"
| "chunk_work P out c (Writing [] n) w =
     (Ok (if 0 < n then Failing (metadata_missing n c) Complete else Complete, []), w)"
| "chunk_work P out c (Writing ((et, cols, rows) # entries) n) w =
     (case write_parquet_file P out et cols (sort_by cmp_rows rows) (fst c) (snd c) w of
        (Ok _, w') \<Rightarrow> (Ok (Writing entries n, []), w')
      | (Err e, w') \<Rightarrow> (Ok (Failing (write_failed c et e) (Writing entries n), []), w')
      | (Panic, w') \<Rightarrow> (Panic, w'))"
| "chunk_work P out c stg w = (Ok (stg, []), w)"

fun working :: "stage \<Rightarrow> bool" where
  "working (Failing message stg) = True"
| "working (Writing entries n) = True"
| "working stg = False"

section \<open>The machine\<close>

datatype bf_event =
    Begin_chunk chunk
  | Request chunk Filter
  | Response chunk "Log list rs"
  | Work chunk
  | End_chunk chunk
  | Refill_begin
  | Refill_end

inductive bf_step ::
  "('w, 'f, 'h, 'u, 'n, 'v) bf_env \<Rightarrow> BackfillConfig \<Rightarrow> bf_event \<Rightarrow> 'w bf_state \<Rightarrow> 'w bf_state \<Rightarrow> bool"
  for E cfg where
  step_begin: "\<not> panicked st \<Longrightarrow> chunk_queue st = c # cs \<Longrightarrow>
    length (running st) < unat (parallelism cfg) \<Longrightarrow>
    bf_step E cfg (Begin_chunk c) st
      (st\<lparr>chunk_queue := cs, running := running st @ [(c, Waiting)]\<rparr>)"
| step_request: "\<not> panicked st \<Longrightarrow> running st = xs @ (c, Waiting) # ys \<Longrightarrow>
    acquire (rate_limiter st) = Some l \<Longrightarrow>
    bf_step E cfg (Request c (chunk_filter (filter_addresses st) c)) st
      (st\<lparr>rate_limiter := l, running := xs @ (c, Fetching) # ys\<rparr>)"
| step_response: "\<not> panicked st \<Longrightarrow> running st = xs @ (c, Fetching) # ys \<Longrightarrow>
    receive_logs (bf_alloy E) (iter_order (bf_parquet E)) c answer = Ok stg \<Longrightarrow>
    bf_step E cfg (Response c answer) st (st\<lparr>running := xs @ (c, stg) # ys\<rparr>)"
| step_response_panic: "\<not> panicked st \<Longrightarrow> running st = xs @ (c, Fetching) # ys \<Longrightarrow>
    receive_logs (bf_alloy E) (iter_order (bf_parquet E)) c answer = Panic \<Longrightarrow>
    bf_step E cfg (Response c answer) st (st\<lparr>panicked := True\<rparr>)"
| step_work: "\<not> panicked st \<Longrightarrow> running st = xs @ (c, stg) # ys \<Longrightarrow> working stg \<Longrightarrow>
    chunk_work (bf_parquet E) (output_dir cfg) c stg (disk st) = (Ok (stg', messages), w') \<Longrightarrow>
    bf_step E cfg (Work c) st
      (st\<lparr>disk := w', running := xs @ (c, stg') # ys, failures := failures st @ messages\<rparr>)"
| step_work_panic: "\<not> panicked st \<Longrightarrow> running st = xs @ (c, stg) # ys \<Longrightarrow> working stg \<Longrightarrow>
    chunk_work (bf_parquet E) (output_dir cfg) c stg (disk st) = (Panic, w') \<Longrightarrow>
    bf_step E cfg (Work c) st (st\<lparr>disk := w', panicked := True\<rparr>)"
| step_end: "\<not> panicked st \<Longrightarrow> running st = xs @ (c, Complete) # ys \<Longrightarrow>
    bf_step E cfg (End_chunk c) st (st\<lparr>running := xs @ ys\<rparr>)"
| step_refill_begin: "\<not> panicked st \<Longrightarrow> refill_read (rate_limiter st) = None \<Longrightarrow>
    bf_step E cfg Refill_begin st (st\<lparr>rate_limiter := refill_begin (rate_limiter st)\<rparr>)"
| step_refill_end: "\<not> panicked st \<Longrightarrow> refill_read (rate_limiter st) \<noteq> None \<Longrightarrow>
    refill_end (rate_limiter st) = Ok l \<Longrightarrow>
    bf_step E cfg Refill_end st (st\<lparr>rate_limiter := l\<rparr>)"

inductive bf_run ::
  "('w, 'f, 'h, 'u, 'n, 'v) bf_env \<Rightarrow> BackfillConfig \<Rightarrow> 'w \<Rightarrow> bf_event list \<Rightarrow> 'w bf_state \<Rightarrow> bool"
  for E cfg w where
  bf_begin: "backfill_start E cfg w = Some (Ok st) \<Longrightarrow> bf_run E cfg w [] st"
| bf_next: "bf_run E cfg w trace st \<Longrightarrow> bf_step E cfg ev st st' \<Longrightarrow> bf_run E cfg w (trace @ [ev]) st'"

text \<open>\<open>run\<close>: its result and the outside world at its return.\<close>

definition failure_summary :: "string list \<Rightarrow> anyhow" where
  "failure_summary fs = ''backfill completed with '' @ show_nat (length fs) @ '' failure(s): ''
     @ join_with '' | '' fs"

inductive backfill ::
  "('w, 'f, 'h, 'u, 'n, 'v) bf_env \<Rightarrow> BackfillConfig \<Rightarrow> 'w \<Rightarrow> bf_event list \<Rightarrow> unit rs \<Rightarrow> 'w \<Rightarrow> bool"
  for E cfg w where
  returns_rejected: "backfill_start E cfg w = Some (Err e) \<Longrightarrow> backfill E cfg w [] (Err e) w"
| panics_at_start: "backfill_start E cfg w = Some Panic \<Longrightarrow> backfill E cfg w [] Panic w"
| returns_finished: "bf_run E cfg w trace st \<Longrightarrow> \<not> panicked st \<Longrightarrow> chunk_queue st = [] \<Longrightarrow> running st = [] \<Longrightarrow>
    backfill E cfg w trace (if failures st = [] then Ok () else Err (failure_summary (failures st))) (disk st)"
| panics_running: "bf_run E cfg w trace st \<Longrightarrow> panicked st \<Longrightarrow> backfill E cfg w trace Panic (disk st)"

inductive_cases backfill_OkE: "backfill E cfg w trace (Ok u) w'"

section \<open>Reading a trace\<close>

fun event_requests :: "bf_event \<Rightarrow> chunk list" where
  "event_requests (Request c f) = [c]"
| "event_requests _ = []"

fun event_filters :: "bf_event \<Rightarrow> Filter list" where
  "event_filters (Request c f) = [f]"
| "event_filters _ = []"

fun event_answers :: "bf_event \<Rightarrow> (chunk \<times> Log list rs) list" where
  "event_answers (Response c answer) = [(c, answer)]"
| "event_answers _ = []"

fun answer_logs :: "chunk \<times> Log list rs \<Rightarrow> Log list" where
  "answer_logs (c, Ok logs) = logs"
| "answer_logs _ = []"

definition requests :: "bf_event list \<Rightarrow> chunk list" where
  "requests trace = concat (map event_requests trace)"

text \<open>The filters sent to the node, and the block range a filter asks for.\<close>

definition sent_filters :: "bf_event list \<Rightarrow> Filter list" where
  "sent_filters trace = concat (map event_filters trace)"

definition filter_range :: "Filter \<Rightarrow> chunk option" where
  "filter_range f = (case (from_block f, to_block f) of
      (Some (Number a), Some (Number b)) \<Rightarrow> Some (a, b)
    | _ \<Rightarrow> None)"

definition answers :: "bf_event list \<Rightarrow> (chunk \<times> Log list rs) list" where
  "answers trace = concat (map event_answers trace)"

definition received_logs :: "bf_event list \<Rightarrow> Log list" where
  "received_logs trace = concat (map answer_logs (answers trace))"

lemma trace_snoc [simp]:
  "requests (trace @ [ev]) = requests trace @ event_requests ev"
  "sent_filters (trace @ [ev]) = sent_filters trace @ event_filters ev"
  "answers (trace @ [ev]) = answers trace @ event_answers ev"
  "received_logs (trace @ [ev]) = received_logs trace @ concat (map answer_logs (event_answers ev))"
  by (simp_all add: requests_def sent_filters_def answers_def received_logs_def)

lemma trace_Nil [simp]: "requests [] = []" "sent_filters [] = []" "answers [] = []" "received_logs [] = []"
  by (simp_all add: requests_def sent_filters_def answers_def received_logs_def)

section \<open>Validation\<close>

definition config_ok :: "BackfillConfig \<Rightarrow> bool" where
  "config_ok cfg \<longleftrightarrow> start_block cfg \<le> end_block cfg \<and> chunk_size_by_block_number cfg \<noteq> 0
     \<and> parallelism cfg \<noteq> 0 \<and> rate_limit_per_second cfg \<noteq> 0"

lemma validate_config_iff: "validate_config cfg = Ok () \<longleftrightarrow> config_ok cfg"
  by (auto simp: validate_config_def config_ok_def)

lemma backfill_start_Ok:
  assumes "backfill_start E cfg w = Some (Ok st)"
  obtains ranges limiter addresses where "config_ok cfg"
    and "chunk_ranges (bf_overflow_checks E) (start_block cfg) (end_block cfg)
      (chunk_size_by_block_number cfg) = Some (Ok ranges)"
    and "RateLimiter_new (rate_limit_per_second cfg) = Ok limiter"
    and "contract_addresses (bf_address_from_str E) = Ok addresses"
    and "st = \<lparr>disk = w, rate_limiter = limiter, filter_addresses = addresses, chunk_queue = ranges,
      running = [], failures = [], panicked = False\<rparr>"
proof -
  from assms obtain limiter addresses where s: "set_up E cfg = Ok (limiter, addresses)"
    by (auto simp: backfill_start_def split: rs.splits prod.splits)
  with assms obtain ranges where "chunk_ranges (bf_overflow_checks E) (start_block cfg) (end_block cfg)
      (chunk_size_by_block_number cfg) = Some (Ok ranges)"
    "st = \<lparr>disk = w, rate_limiter = limiter, filter_addresses = addresses, chunk_queue = ranges,
      running = [], failures = [], panicked = False\<rparr>"
    by (auto simp: backfill_start_def)
  with s that show thesis by (auto simp: set_up_def validate_config_iff)
qed

section \<open>The bookkeeping invariant\<close>

definition waiting_chunks :: "(chunk \<times> stage) list \<Rightarrow> chunk list" where
  "waiting_chunks rs = map fst (filter (\<lambda>(c, stg). stg = Waiting) rs)"

definition fetching_chunks :: "(chunk \<times> stage) list \<Rightarrow> chunk list" where
  "fetching_chunks rs = map fst (filter (\<lambda>(c, stg). stg = Fetching) rs)"

lemma chunks_at_simps [simp]:
  "waiting_chunks [] = []" "fetching_chunks [] = []"
  "waiting_chunks (xs @ ys) = waiting_chunks xs @ waiting_chunks ys"
  "fetching_chunks (xs @ ys) = fetching_chunks xs @ fetching_chunks ys"
  "waiting_chunks ((c, stg) # ys) = (if stg = Waiting then c # waiting_chunks ys else waiting_chunks ys)"
  "fetching_chunks ((c, stg) # ys) = (if stg = Fetching then c # fetching_chunks ys else fetching_chunks ys)"
  by (simp_all add: waiting_chunks_def fetching_chunks_def)

text \<open>A stage that is pushing a failure goes on with its files or ends.\<close>

fun stage_wf :: "stage \<Rightarrow> bool" where
  "stage_wf (Failing message stg) \<longleftrightarrow> stage_wf stg \<and> stg \<noteq> Waiting \<and> stg \<noteq> Fetching"
| "stage_wf (Writing entries n) = True"
| "stage_wf stg = True"

text \<open>
  Every chunk is in the queue, waits for its permit or has been requested; every request has an answer or
  waits for it; no chunk is in two places; the limits are kept.
\<close>

definition book_inv :: "BackfillConfig \<Rightarrow> chunk list \<Rightarrow> bf_event list \<Rightarrow> 'w bf_state \<Rightarrow> bool" where
  "book_inv cfg ranges trace st \<longleftrightarrow>
     mset ranges = mset (chunk_queue st) + mset (waiting_chunks (running st)) + mset (requests trace)
     \<and> (\<not> panicked st \<longrightarrow>
          mset (requests trace) = mset (fetching_chunks (running st)) + mset (map fst (answers trace)))
     \<and> set (chunk_queue st) \<subseteq> set ranges \<and> fst ` set (running st) \<subseteq> set ranges
     \<and> (distinct ranges \<longrightarrow> distinct (chunk_queue st @ map fst (running st)))
     \<and> length (running st) \<le> unat (parallelism cfg)
     \<and> (\<forall>(c, stg) \<in> set (running st). stage_wf stg)
     \<and> limiter_inv (rate_limit_per_second cfg) (rate_limiter st)"

lemma receive_logs_stage:
  assumes "receive_logs A order c answer = Ok stg"
  shows "stg \<noteq> Waiting" "stg \<noteq> Fetching" "stage_wf stg"
  using assms by (auto simp: receive_logs_def split: rs.splits)

lemma chunk_work_stage:
  assumes "chunk_work P out c stg w = (Ok (stg', messages), w')" and "working stg" and "stage_wf stg"
  shows "stg' \<noteq> Waiting" "stg' \<noteq> Fetching" "stage_wf stg'"
  using assms by (cases "(P, out, c, stg, w)" rule: chunk_work.cases;
      auto split: if_splits rs.splits prod.splits)+

lemma working_stage: "working stg \<Longrightarrow> stg \<noteq> Waiting \<and> stg \<noteq> Fetching"
  by (cases stg) simp_all

lemma book_inv_start:
  assumes "backfill_start E cfg w = Some (Ok st)"
    and "chunk_ranges (bf_overflow_checks E) (start_block cfg) (end_block cfg)
      (chunk_size_by_block_number cfg) = Some (Ok ranges)"
  shows "book_inv cfg ranges [] st"
  using assms(1) by (rule backfill_start_Ok)
    (use assms(2) in \<open>auto simp: book_inv_def intro: RateLimiter_new_inv\<close>)

lemma book_inv_step:
  assumes "bf_step E cfg ev st st'" and inv: "book_inv cfg ranges trace st"
  shows "book_inv cfg ranges (trace @ [ev]) st'"
  using assms(1)
proof cases
  case (step_begin c cs)
  with inv show ?thesis by (auto simp: book_inv_def)
next
  case (step_request xs c ys l)
  with inv show ?thesis by (auto simp: book_inv_def dest: acquire_inv)
next
  case (step_response xs c ys answer stg)
  with inv receive_logs_stage [OF step_response(5)] show ?thesis by (auto simp: book_inv_def)
next
  case (step_response_panic xs c ys answer)
  with inv show ?thesis by (auto simp: book_inv_def)
next
  case (step_work xs c stg ys stg' messages w')
  have "stage_wf stg" using inv step_work(4) by (auto simp: book_inv_def)
  with inv step_work chunk_work_stage [OF step_work(6,5)] working_stage [OF step_work(5)]
  show ?thesis by (auto simp: book_inv_def)
next
  case (step_work_panic xs c stg ys w')
  with inv show ?thesis by (auto simp: book_inv_def)
next
  case (step_end xs c ys)
  with inv show ?thesis by (auto simp: book_inv_def)
next
  case step_refill_begin
  with inv show ?thesis by (auto simp: book_inv_def refill_begin_inv)
next
  case (step_refill_end l)
  with inv refill_end_inv [of "rate_limit_per_second cfg" "rate_limiter st"] show ?thesis
    by (auto simp: book_inv_def)
qed

lemma bf_run_book_inv:
  assumes "bf_run E cfg w trace st"
  obtains ranges where "config_ok cfg"
    and "chunk_ranges (bf_overflow_checks E) (start_block cfg) (end_block cfg)
      (chunk_size_by_block_number cfg) = Some (Ok ranges)"
    and "book_inv cfg ranges trace st"
proof -
  have "\<exists>ranges. config_ok cfg \<and> chunk_ranges (bf_overflow_checks E) (start_block cfg) (end_block cfg)
      (chunk_size_by_block_number cfg) = Some (Ok ranges) \<and> book_inv cfg ranges trace st"
    using assms
  proof (induction rule: bf_run.induct)
    case (bf_begin st)
    then show ?case by (metis backfill_start_Ok book_inv_start)
  next
    case (bf_next trace st ev st')
    then show ?case by (blast intro: book_inv_step)
  qed
  with that show thesis by blast
qed

text \<open>The filters sent are those of the chunks requested, for the addresses of the contracts.\<close>

lemma bf_run_filters:
  assumes "bf_run E cfg w trace st"
  obtains addresses where "contract_addresses (bf_address_from_str E) = Ok addresses"
    and "sent_filters trace = map (chunk_filter addresses) (requests trace)"
proof -
  have "\<exists>addresses. contract_addresses (bf_address_from_str E) = Ok addresses
      \<and> filter_addresses st = addresses \<and> sent_filters trace = map (chunk_filter addresses) (requests trace)"
    using assms
  proof (induction rule: bf_run.induct)
    case (bf_begin st)
    then show ?case by (rule backfill_start_Ok) simp
  next
    case (bf_next trace st ev st')
    from bf_next.hyps(2) bf_next.IH show ?case by cases auto
  qed
  with that show thesis by blast
qed

section \<open>The rate limit\<close>

fun event_ops :: "bf_event \<Rightarrow> bucket_op list" where
  "event_ops (Request c f) = [Take]"
| "event_ops Refill_begin = [Read]"
| "event_ops Refill_end = [Add]"
| "event_ops _ = []"

definition bucket_ops :: "bf_event list \<Rightarrow> bucket_op list" where
  "bucket_ops trace = concat (map event_ops trace)"

lemma bucket_ops_simps [simp]:
  "bucket_ops [] = []" "bucket_ops (trace @ [ev]) = bucket_ops trace @ event_ops ev"
  by (simp_all add: bucket_ops_def)

lemma bucket_ops_counts:
  "count_list (bucket_ops trace) Take = length (requests trace)"
  "count_list (bucket_ops trace) Add = count_list trace Refill_end"
proof -
  have "count_list (bucket_ops trace) Take = length (requests trace)
    \<and> count_list (bucket_ops trace) Add = count_list trace Refill_end"
  proof (induction trace rule: rev_induct)
    case (snoc ev trace)
    then show ?case by (cases ev) simp_all
  qed simp
  then show "count_list (bucket_ops trace) Take = length (requests trace)"
    "count_list (bucket_ops trace) Add = count_list trace Refill_end" by simp_all
qed

lemma bf_run_bucket_run:
  assumes "bf_run E cfg w trace st"
  obtains limiter where "RateLimiter_new (rate_limit_per_second cfg) = Ok limiter"
    and "limiter.bucket_run limiter (bucket_ops trace) (rate_limiter st)"
proof -
  have "\<exists>limiter. RateLimiter_new (rate_limit_per_second cfg) = Ok limiter
    \<and> limiter.bucket_run limiter (bucket_ops trace) (rate_limiter st)"
    using assms
  proof (induction rule: bf_run.induct)
    case (bf_begin st)
    then show ?case by (rule backfill_start_Ok) (auto intro: limiter.bucket_run.intros)
  next
    case (bf_next trace st ev st')
    from bf_next.IH obtain l where "RateLimiter_new (rate_limit_per_second cfg) = Ok l"
      "limiter.bucket_run l (bucket_ops trace) (rate_limiter st)" by blast
    with bf_next.hyps(2) show ?case
      by cases (auto intro: limiter.bucket_run.intros)
  qed
  with that show thesis by blast
qed

section \<open>What has been stored\<close>

text \<open>The laws of the libraries the properties of the files rely on.\<close>

definition file_laws :: "('w, 'f, 'h, 'u, 'n, 'v) bf_env \<Rightarrow> ('w, 'f, 'h) disk_view \<Rightarrow> bool" where
  "file_laws E V \<longleftrightarrow> writers_ok (bf_parquet E) V \<and> batches_ok (bf_parquet E)
     \<and> hash_iter_ok (iter_order (bf_parquet E))"

fun stage_groups :: "stage \<Rightarrow> by_event" where
  "stage_groups (Writing entries n) = entries"
| "stage_groups (Failing message stg) = stage_groups stg"
| "stage_groups _ = []"

definition stages_ok :: "'w bf_state \<Rightarrow> bool" where
  "stages_ok st \<longleftrightarrow> (\<forall>(c, stg) \<in> set (running st). groups_ok (stage_groups stg))"

lemma groups_ok_cong:
  assumes "mset m = mset m'"
  shows "groups_ok m = groups_ok m'"
proof -
  have "distinct (map fst m) = distinct (map fst m')"
    using assms by (metis mset_eq_imp_distinct_iff mset_map)
  moreover have "set m = set m'" using assms by (rule mset_eq_setD)
  ultimately show ?thesis by (simp add: groups_ok_def)
qed

lemma hash_entries_groups:
  assumes "hash_iter_ok order" and "groups_ok m"
  shows "groups_ok (hash_entries order m)" "all_rows (hash_entries order m) = all_rows m"
proof -
  have e: "mset (hash_entries order m) = mset m"
    by (rule hash_entries_permutation) (use assms in \<open>auto simp: groups_ok_def\<close>)
  from groups_ok_cong [OF this] assms(2) show "groups_ok (hash_entries order m)" by simp
  from all_rows_mset [OF e] show "all_rows (hash_entries order m) = all_rows m" .
qed

lemma groups_ok_Cons: "groups_ok (g # m) \<Longrightarrow> group_ok g \<and> groups_ok m \<and> fst g \<notin> fst ` set m"
  by (auto simp: groups_ok_def)

lemma receive_logs_groups:
  assumes "hash_iter_ok order" and "receive_logs A order c (Ok logs) = Ok stg"
  obtains entries n where "stg = Writing entries n" and "groups_ok entries"
    and "all_rows entries = mset (concat (map (log_rows A) logs))"
    and "0 < n \<longleftrightarrow> (\<exists>lg \<in> set logs. lacks_metadata A lg)"
proof -
  from assms(2) obtain m n where g: "group_logs A logs ([], 0) = Ok (m, n)"
    and stg: "stg = Writing (hash_entries order m) n"
    by (auto simp: receive_logs_def)
  note ok = group_logs_groups [OF g groups_ok_Nil]
  have "0 < n \<longleftrightarrow> 0 < unat n" by (simp add: unat_gt_0 word_gt_0)
  then have "0 < n \<longleftrightarrow> (\<exists>lg \<in> set logs. lacks_metadata A lg)"
    using ok(3) by (auto simp: filter_empty_conv)
  with ok hash_entries_groups [OF assms(1) ok(1)] stg that show thesis by simp
qed

lemma receive_logs_Err: "receive_logs A order c (Err e) = Ok (Failing (fetch_failed c e) Complete)"
  by (simp add: receive_logs_def)

lemma chunk_work_groups:
  assumes "chunk_work P out c stg w = (Ok (stg', messages), w')" and "groups_ok (stage_groups stg)"
  shows "groups_ok (stage_groups stg')"
  using assms by (cases "(P, out, c, stg, w)" rule: chunk_work.cases)
    (auto split: if_splits rs.splits prod.splits dest: groups_ok_Cons)

lemma stages_ok_step:
  assumes "bf_step E cfg ev st st'" and "hash_iter_ok (iter_order (bf_parquet E))" and "stages_ok st"
  shows "stages_ok st'"
  using assms(1)
proof cases
  case (step_response xs c ys answer stg)
  have "groups_ok (stage_groups stg)"
  proof (cases answer)
    case (Ok logs)
    with step_response(5) show ?thesis by (auto elim!: receive_logs_groups [OF assms(2)])
  qed (use step_response(5) in \<open>auto simp: receive_logs_def\<close>)
  with assms(3) step_response show ?thesis by (auto simp: stages_ok_def)
next
  case (step_work xs c stg ys stg' messages w')
  with assms(3) chunk_work_groups [OF step_work(6)] show ?thesis by (auto simp: stages_ok_def)
qed (use assms(3) in \<open>auto simp: stages_ok_def\<close>)

lemma bf_run_stages_ok:
  assumes "bf_run E cfg w trace st" and "hash_iter_ok (iter_order (bf_parquet E))"
  shows "stages_ok st"
  using assms(1)
proof (induction rule: bf_run.induct)
  case (bf_begin st)
  then show ?case by (rule backfill_start_Ok) (simp add: stages_ok_def)
next
  case (bf_next trace st ev st')
  then show ?case by (blast intro: stages_ok_step assms(2))
qed

text \<open>No failure so far, and none about to be pushed.\<close>

definition clean :: "'w bf_state \<Rightarrow> bool" where
  "clean st \<longleftrightarrow> \<not> panicked st \<and> failures st = []
     \<and> (\<forall>(c, stg) \<in> set (running st). \<forall>message next. stg \<noteq> Failing message next)"

definition pending_rows :: "(chunk \<times> stage) list \<Rightarrow> RecordBatch multiset" where
  "pending_rows rs = (\<Sum>r\<in>#mset rs. all_rows (stage_groups (snd r)))"

lemma pending_rows_simps [simp]:
  "pending_rows [] = {#}" "pending_rows (r # rs) = all_rows (stage_groups (snd r)) + pending_rows rs"
  "pending_rows (xs @ ys) = pending_rows xs + pending_rows ys"
  by (simp_all add: pending_rows_def)

text \<open>The files still to come.\<close>

definition may_write :: "'w bf_state \<Rightarrow> string \<Rightarrow> chunk \<Rightarrow> bool" where
  "may_write st et c \<longleftrightarrow> c \<in> set (chunk_queue st) \<or> (\<exists>stg. (c, stg) \<in> set (running st)
     \<and> (stg = Waiting \<or> stg = Fetching \<or> et \<in> fst ` set (stage_groups stg)))"

text \<open>
  Without a failure, the rows of all logs received are in the completed files or in the groups of a
  running future, whose files are still to come; and a log without metadata is remembered until the end
  of its chunk.
\<close>

definition store_inv ::
  "('w, 'f, 'h, 'u, 'n, 'v) bf_env \<Rightarrow> ('w, 'f, 'h) disk_view \<Rightarrow> BackfillConfig \<Rightarrow> 'w \<Rightarrow> bf_event list \<Rightarrow>
     'w bf_state \<Rightarrow> bool" where
  "store_inv E V cfg w trace st \<longleftrightarrow>
     slices (finished V (disk st)) + pending_rows (running st)
       = slices (finished V w) + mset (concat (map (log_rows (bf_alloy E)) (received_logs trace)))
     \<and> (\<forall>et c. plain_segment et \<longrightarrow> may_write st et c \<longrightarrow>
          chunk_file (output_dir cfg) et c \<notin> data_paths V (disk st))
     \<and> (\<forall>c logs. (c, Ok logs) \<in> set (answers trace) \<longrightarrow> (\<exists>lg \<in> set logs. lacks_metadata (bf_alloy E) lg) \<longrightarrow>
          (\<exists>entries n. (c, Writing entries n) \<in> set (running st) \<and> 0 < n))
     \<and> (\<forall>c e. (c, Err e) \<notin> set (answers trace))"

lemma chunk_work_clean:
  assumes w: "chunk_work P out c stg s = (Ok (stg', messages), s')" and "working stg"
    and laws: "writers_ok P V" "batches_ok P" and g: "groups_ok (stage_groups stg)"
    and "\<And>message next. stg \<noteq> Failing message next" "\<And>message next. stg' \<noteq> Failing message next"
    and fresh: "\<And>et. plain_segment et \<Longrightarrow> et \<in> fst ` set (stage_groups stg) \<Longrightarrow>
      chunk_file out et c \<notin> data_paths V s"
  obtains (no_file) "stg = Writing [] 0" "stg' = Complete" "s' = s" "messages = []"
  | (one_file) et cols rows entries n where "stg = Writing ((et, cols, rows) # entries) n"
    and "stg' = Writing entries n" "messages = []" "plain_segment et"
    and "slices (finished V s') = slices (finished V s) + all_rows [(et, cols, rows)]"
    and "data_paths V s' = insert (chunk_file out et c) (data_paths V s)"
proof -
  from assms(2,6) obtain entries n where stg: "stg = Writing entries n" by (cases stg) auto
  show thesis
  proof (cases entries)
    case Nil
    with w assms(7) stg show thesis by (intro no_file) (auto simp: word_gt_0 split: if_splits)
  next
    case (Cons group rest)
    obtain et cols rows where group: "group = (et, cols, rows)" by (cases group)
    with g Cons stg have ok: "group_ok (et, cols, rows)" by (auto dest: groups_ok_Cons)
    then have rows: "\<forall>row \<in> set (sort_by cmp_rows rows). length (row_values row) = length cols"
      and et: "plain_segment et" by (simp_all add: sort_by_key)
    from w assms(7) stg Cons group have
      f: "write_parquet_file P out et cols (sort_by cmp_rows rows) (fst c) (snd c) s = (Ok (), s')"
      and res: "stg' = Writing rest n" "messages = []"
      by (auto split: prod.splits rs.splits)
    have "chunk_file out et c \<notin> data_paths V s" using fresh [OF et] stg Cons group by simp
    then have new: "path_join (path_join out et) (chunk_file_name (fst c) (snd c)) \<notin> data_paths V s"
      by (simp add: chunk_file_def case_prod_beta)
    note fin = write_parquet_file_Ok [OF laws f new rows]
    show thesis
    proof (rule one_file [of et cols rows rest n])
      show "slices (finished V s') = slices (finished V s) + all_rows [(et, cols, rows)]"
        using fin(1) group_batch_slices [OF rows, of et] by (simp add: sort_by_key)
      show "data_paths V s' = insert (chunk_file out et c) (data_paths V s)"
        using fin(2) by (simp add: chunk_file_def case_prod_beta)
    qed (use stg Cons group res et in auto)
  qed
qed

lemma store_inv_same_disk:
  assumes "store_inv E V cfg w trace st" and "disk st' = disk st"
    and "pending_rows (running st') = pending_rows (running st)" and "\<And>et c. may_write st' et c \<Longrightarrow> may_write st et c"
    and "answers trace' = answers trace"
    and "\<And>c entries n. (c, Writing entries n) \<in> set (running st) \<Longrightarrow> 0 < n \<Longrightarrow>
      (c, Writing entries n) \<in> set (running st')"
  shows "store_inv E V cfg w trace' st'"
  using assms unfolding store_inv_def received_logs_def by (metis (no_types, lifting))

lemma may_write_after_file:
  assumes may: "may_write (st\<lparr>disk := w', running := xs @ (c, Writing entries n) # ys, failures := fs\<rparr>) et' c'"
    and r: "running st = xs @ (c, Writing ((et, g) # entries) n) # ys"
    and dist: "distinct (chunk_queue st @ map fst (running st))" and ok: "groups_ok ((et, g) # entries)"
  shows "may_write st et' c' \<and> (et', c') \<noteq> (et, c)"
proof -
  from dist r have c: "c \<notin> set (chunk_queue st)" "c \<notin> fst ` set xs" "c \<notin> fst ` set ys" by auto
  have et: "et \<notin> fst ` set entries" using groups_ok_Cons [OF ok] by simp
  from may consider "c' \<in> set (chunk_queue st)"
    | stg where "(c', stg) \<in> set xs \<union> set ys" "stg = Waiting \<or> stg = Fetching \<or> et' \<in> fst ` set (stage_groups stg)"
    | "c' = c" "et' \<in> fst ` set entries"
    unfolding may_write_def
    by (simp, elim disjE exE conjE) (blast | simp del: image_iff)+
  then show ?thesis
  proof cases
    case 1
    with c show ?thesis by (auto simp: may_write_def)
  next
    case (2 stg)
    then have "c' \<noteq> c" using c by (metis Un_iff fst_conv image_eqI)
    moreover have "(c', stg) \<in> set (running st)" using 2(1) r by auto
    ultimately show ?thesis using 2(2) unfolding may_write_def by blast
  next
    case 3
    have "(c, Writing ((et, g) # entries) n) \<in> set (running st)" using r by simp
    with 3 et show ?thesis unfolding may_write_def by fastforce
  qed
qed

text \<open>The answer of the node: its rows become pending, its logs without metadata remembered.\<close>

lemma store_inv_response:
  assumes "store_inv E V cfg w trace st" and laws: "file_laws E V"
    and r: "running st = xs @ (c, Fetching) # ys"
    and recv: "receive_logs (bf_alloy E) (iter_order (bf_parquet E)) c (Ok logs) = Ok stg"
  shows "store_inv E V cfg w (trace @ [Response c (Ok logs)]) (st\<lparr>running := xs @ (c, stg) # ys\<rparr>)"
    (is "store_inv E V cfg w ?trace ?st")
proof -
  note inv = assms(1) [unfolded store_inv_def]
  from recv laws obtain entries n where stg: "stg = Writing entries n"
    and rows: "all_rows entries = mset (concat (map (log_rows (bf_alloy E)) logs))"
    and n: "0 < n \<longleftrightarrow> (\<exists>lg \<in> set logs. lacks_metadata (bf_alloy E) lg)"
    unfolding file_laws_def by (metis receive_logs_groups)
  have may: "may_write st et c'" if "may_write ?st et c'" for et c'
    using that by (auto simp: may_write_def r)
  show ?thesis
    unfolding store_inv_def
  proof (intro conjI allI impI)
    show "slices (finished V (disk ?st)) + pending_rows (running ?st) = slices (finished V w)
        + mset (concat (map (log_rows (bf_alloy E)) (received_logs ?trace)))"
      using inv by (simp add: r stg rows)
    show "chunk_file (output_dir cfg) et c' \<notin> data_paths V (disk ?st)"
      if "plain_segment et" "may_write ?st et c'" for et c'
    proof -
      have "chunk_file (output_dir cfg) et c' \<notin> data_paths V (disk st)"
        using inv that(1) may [OF that(2)] by blast
      then show ?thesis by simp
    qed
    show "\<exists>entries n. (c', Writing entries n) \<in> set (running ?st) \<and> 0 < n"
      if "(c', Ok logs') \<in> set (answers ?trace)" "\<exists>lg \<in> set logs'. lacks_metadata (bf_alloy E) lg"
      for c' logs'
    proof (cases "(c', Ok logs') \<in> set (answers trace)")
      case True
      with inv that(2) have "\<exists>entries n. (c', Writing entries n) \<in> set (running st) \<and> 0 < n" by blast
      then show ?thesis by (auto simp: r)
    next
      case False
      with that n show ?thesis by (auto simp: stg)
    qed
    show "(c', Err e) \<notin> set (answers ?trace)" for c' e
    proof -
      have "(c', Err e) \<notin> set (answers trace)" using inv by blast
      then show ?thesis by simp
    qed
  qed
qed

text \<open>A file: its rows move from the pending ones to the completed files.\<close>

lemma store_inv_file:
  assumes "store_inv E V cfg w trace st" and r: "running st = xs @ (c, Writing ((et, cols, rows) # entries) n) # ys"
    and dist: "distinct (chunk_queue st @ map fst (running st))" and g: "groups_ok ((et, cols, rows) # entries)"
    and et: "plain_segment et"
    and fin: "slices (finished V w') = slices (finished V (disk st)) + all_rows [(et, cols, rows)]"
    and paths: "data_paths V w' = insert (chunk_file (output_dir cfg) et c) (data_paths V (disk st))"
  shows "store_inv E V cfg w (trace @ [Work c])
      (st\<lparr>disk := w', running := xs @ (c, Writing entries n) # ys, failures := fs\<rparr>)"
    (is "store_inv E V cfg w ?trace ?st")
proof -
  note inv = assms(1) [unfolded store_inv_def]
  have may: "may_write st et' c' \<and> (et', c') \<noteq> (et, c)" if "may_write ?st et' c'" for et' c'
    by (rule may_write_after_file [OF that r dist g])
  show ?thesis
    unfolding store_inv_def
  proof (intro conjI allI impI)
    show "slices (finished V (disk ?st)) + pending_rows (running ?st) = slices (finished V w)
        + mset (concat (map (log_rows (bf_alloy E)) (received_logs ?trace)))"
      using inv by (simp add: r fin ac_simps)
    show "chunk_file (output_dir cfg) et' c' \<notin> data_paths V (disk ?st)"
      if "plain_segment et'" "may_write ?st et' c'" for et' c'
    proof -
      have "chunk_file (output_dir cfg) et' c' \<notin> data_paths V (disk st)"
        using inv that(1) may [OF that(2)] by blast
      with that(1) may [OF that(2)] et paths show ?thesis by (simp add: chunk_file_inject)
    qed
    show "\<exists>entries n. (c', Writing entries n) \<in> set (running ?st) \<and> 0 < n"
      if "(c', Ok logs') \<in> set (answers ?trace)" "\<exists>lg \<in> set logs'. lacks_metadata (bf_alloy E) lg"
      for c' logs'
    proof -
      have "\<exists>entries n. (c', Writing entries n) \<in> set (running st) \<and> 0 < n"
        using inv that by (simp only: trace_snoc event_answers.simps append_Nil2)
      then show ?thesis by (auto simp: r)
    qed
    show "(c', Err e) \<notin> set (answers ?trace)" for c' e
    proof -
      have "(c', Err e) \<notin> set (answers trace)" using inv by blast
      then show ?thesis by simp
    qed
  qed
qed

text \<open>A turn of a chunk that writes: it is done, or has written its first file.\<close>

lemma store_inv_work:
  assumes work: "chunk_work (bf_parquet E) (output_dir cfg) c stg (disk st) = (Ok (stg', messages), w')"
    and r: "running st = xs @ (c, stg) # ys" and "working stg"
    and laws: "file_laws E V" and groups: "stages_ok st" and dist: "distinct (chunk_queue st @ map fst (running st))"
    and inv: "store_inv E V cfg w trace st"
    and no_fail: "\<And>message next. stg \<noteq> Failing message next" "\<And>message next. stg' \<noteq> Failing message next"
  shows "store_inv E V cfg w (trace @ [Work c])
      (st\<lparr>disk := w', running := xs @ (c, stg') # ys, failures := failures st @ messages\<rparr>)"
proof -
  have mem: "(c, stg) \<in> set (running st)" by (simp add: r)
  have g: "groups_ok (stage_groups stg)" using groups mem by (auto simp: stages_ok_def)
  have fresh: "chunk_file (output_dir cfg) et c \<notin> data_paths V (disk st)"
    if "plain_segment et" "et \<in> fst ` set (stage_groups stg)" for et
  proof -
    have "may_write st et c" unfolding may_write_def using mem that(2) by blast
    with inv that(1) show ?thesis unfolding store_inv_def by blast
  qed
  have laws': "writers_ok (bf_parquet E) V" "batches_ok (bf_parquet E)"
    using laws by (simp_all add: file_laws_def)
  consider (no_file) "stg = Writing [] 0" "stg' = Complete" "w' = disk st" "messages = []"
    | (one_file) et cols rows entries n where "stg = Writing ((et, cols, rows) # entries) n"
      "stg' = Writing entries n" "messages = []" "plain_segment et"
      "slices (finished V w') = slices (finished V (disk st)) + all_rows [(et, cols, rows)]"
      "data_paths V w' = insert (chunk_file (output_dir cfg) et c) (data_paths V (disk st))"
    by (rule chunk_work_clean [OF work assms(3) laws' g no_fail fresh]) blast+
  then show ?thesis
  proof cases
    case no_file
    from store_inv_same_disk [OF inv] show ?thesis
      by (rule meta_mp) (auto simp: r no_file may_write_def)
  next
    case (one_file et cols rows entries n)
    have "running st = xs @ (c, Writing ((et, cols, rows) # entries) n) # ys"
      "groups_ok ((et, cols, rows) # entries)" using g by (simp_all add: r one_file)
    from store_inv_file [OF inv this(1) dist this(2) one_file(4,5,6)]
    show ?thesis unfolding one_file(2) by blast
  qed
qed

lemma store_inv_step:
  assumes step: "bf_step E cfg ev st st'" and laws: "file_laws E V" and groups: "stages_ok st"
    and dist: "distinct (chunk_queue st @ map fst (running st))"
    and inv: "clean st \<Longrightarrow> store_inv E V cfg w trace st" and clean: "clean st'"
  shows "store_inv E V cfg w (trace @ [ev]) st'"
  using step
proof cases
  case (step_begin c cs)
  have "clean st" using clean by (auto simp: step_begin clean_def)
  from store_inv_same_disk [OF inv [OF this]] show ?thesis
    by (rule meta_mp) (auto simp: step_begin may_write_def)
next
  case (step_request xs c ys l)
  have "clean st" using clean by (auto simp: step_request clean_def)
  from store_inv_same_disk [OF inv [OF this]] show ?thesis
    by (rule meta_mp) (auto simp: step_request may_write_def)
next
  case (step_response xs c ys answer stg)
  have cl: "clean st" using clean by (auto simp: step_response clean_def)
  obtain logs where logs: "answer = Ok logs"
    using step_response clean by (cases answer) (auto simp: receive_logs_def clean_def)
  with step_response store_inv_response [OF inv [OF cl] laws step_response(4), of logs stg] show ?thesis by simp
next
  case (step_response_panic xs c ys answer)
  with clean show ?thesis by (simp add: clean_def)
next
  case (step_work xs c stg ys stg' messages w')
  have no_messages: "messages = []" using clean by (simp add: step_work clean_def)
  have no_fail: "stg \<noteq> Failing message next" for message "next"
    using step_work(6) no_messages by auto
  have no_fail': "stg' \<noteq> Failing message next" for message "next"
    using clean by (auto simp: step_work clean_def)
  have cl: "clean st" using clean no_fail by (auto simp: step_work clean_def)
  from store_inv_work [OF step_work(6) step_work(4,5) laws groups dist inv [OF cl] no_fail no_fail']
  show ?thesis unfolding step_work(1,2) .
next
  case (step_work_panic xs c stg ys w')
  with clean show ?thesis by (simp add: clean_def)
next
  case (step_end xs c ys)
  have "clean st" using clean by (auto simp: step_end clean_def)
  from store_inv_same_disk [OF inv [OF this]] show ?thesis
    by (rule meta_mp) (auto simp: step_end may_write_def)
next
  case step_refill_begin
  have "clean st" using clean by (auto simp: step_refill_begin clean_def)
  from store_inv_same_disk [OF inv [OF this]] show ?thesis
    by (rule meta_mp) (auto simp: step_refill_begin may_write_def)
next
  case (step_refill_end l)
  have "clean st" using clean by (auto simp: step_refill_end clean_def)
  from store_inv_same_disk [OF inv [OF this]] show ?thesis
    by (rule meta_mp) (auto simp: step_refill_end may_write_def)
qed

end
