(* ===== verification/Backfill_Correct.thy ===== *)
theory Backfill_Correct
  imports Backfill
begin

text \<open>
  The properties of \<open>run\<close> of \<open>src/src/backfill.rs\<close> over all interleavings of the chunk futures and the
  refill task: completeness of the files, one request per block, the two limits, error reporting,
  absence of panics, progress and termination.
\<close>

section \<open>Runs\<close>

definition sums_fit :: "BackfillConfig \<Rightarrow> bool" where
  "sums_fit cfg \<longleftrightarrow> unat (end_block cfg) + unat (chunk_size_by_block_number cfg) < 2 ^ 64"

text \<open>No file for a chunk within the interval exists.\<close>

definition output_fresh :: "('w, 'f, 'h) disk_view \<Rightarrow> BackfillConfig \<Rightarrow> 'w \<Rightarrow> bool" where
  "output_fresh V cfg w \<longleftrightarrow> (\<forall>et a b. plain_segment et \<longrightarrow> start_block cfg \<le> a \<longrightarrow> b \<le> end_block cfg \<longrightarrow>
     chunk_file (output_dir cfg) et (a, b) \<notin> data_paths V w)"

lemma run_ranges:
  assumes "config_ok cfg" and "sums_fit cfg"
    and "chunk_ranges checks (start_block cfg) (end_block cfg) (chunk_size_by_block_number cfg)
      = Some (Ok ranges)"
  shows "distinct ranges"
    and "(a, b) \<in> set ranges \<Longrightarrow> start_block cfg \<le> a \<and> a \<le> b \<and> b \<le> end_block cfg"
    and "concat (map (\<lambda>(a, b). [unat a..<unat b + 1]) ranges)
      = [unat (start_block cfg)..<unat (end_block cfg) + 1]"
proof -
  let ?n = "nat_chunks (unat (end_block cfg)) (unat (chunk_size_by_block_number cfg)) (unat (start_block cfg))"
  have size: "chunk_size_by_block_number cfg \<noteq> 0" using assms(1) by (simp add: config_ok_def)
  from chunk_ranges_computes [OF size assms(2) [unfolded sums_fit_def], of checks "start_block cfg"] assms(3)
  have ranges: "map nat_range ranges = ?n" by auto
  have "distinct (map fst (map nat_range ranges))" by (simp only: ranges nat_chunks_distinct)
  then show "distinct ranges" by (simp add: distinct_map)
  show "start_block cfg \<le> a \<and> a \<le> b \<and> b \<le> end_block cfg" if "(a, b) \<in> set ranges"
  proof -
    have "(unat a, unat b) \<in> set (map nat_range ranges)" using that by (force simp: nat_range_def)
    from nat_chunks_bounds [OF this [unfolded ranges]] show ?thesis by (simp add: word_le_nat_alt)
  qed
  have "map (\<lambda>(a, b). [unat a..<unat b + 1]) ranges = map blocks_of (map nat_range ranges)"
    by (auto simp: blocks_of_def nat_range_def)
  then show "concat (map (\<lambda>(a, b). [unat a..<unat b + 1]) ranges)
      = [unat (start_block cfg)..<unat (end_block cfg) + 1]"
    using nat_chunks_blocks [of "unat (chunk_size_by_block_number cfg)" "unat (end_block cfg)"] size
    by (simp only: ranges unat_eq_zero not_False_eq_True)
qed

lemma bf_run_start:
  assumes "bf_run E cfg w trace st"
  obtains st0 where "backfill_start E cfg w = Some (Ok st0)"
  using assms by (induction rule: bf_run.induct) blast+

lemma bf_run_store_inv:
  assumes "bf_run E cfg w trace st" and laws: "file_laws E V" and "sums_fit cfg"
    and fresh: "output_fresh V cfg w" and "clean st"
  shows "store_inv E V cfg w trace st"
  using assms(1,5)
proof (induction rule: bf_run.induct)
  case (bf_begin st)
  from bf_begin(1) obtain ranges limiter addresses where cfg: "config_ok cfg"
    and ranges: "chunk_ranges (bf_overflow_checks E) (start_block cfg) (end_block cfg)
      (chunk_size_by_block_number cfg) = Some (Ok ranges)"
    and st: "st = \<lparr>disk = w, rate_limiter = limiter, filter_addresses = addresses, chunk_queue = ranges,
      running = [], failures = [], panicked = False\<rparr>" by (rule backfill_start_Ok)
  have "chunk_file (output_dir cfg) et c \<notin> data_paths V w" if "plain_segment et" "c \<in> set ranges" for et c
    using fresh that run_ranges(2) [OF cfg assms(3) ranges] by (cases c) (auto simp: output_fresh_def)
  then show ?case by (simp add: store_inv_def st may_write_def)
next
  case (bf_next trace st ev st')
  have groups: "stages_ok st"
    by (rule bf_run_stages_ok [OF bf_next(1)]) (use laws in \<open>simp add: file_laws_def\<close>)
  obtain ranges where "config_ok cfg" "chunk_ranges (bf_overflow_checks E) (start_block cfg) (end_block cfg)
      (chunk_size_by_block_number cfg) = Some (Ok ranges)" "book_inv cfg ranges trace st"
    by (rule bf_run_book_inv [OF bf_next(1)])
  with run_ranges(1) [OF _ assms(3)] have "distinct (chunk_queue st @ map fst (running st))"
    unfolding book_inv_def by blast
  from store_inv_step [OF bf_next(2) laws groups this bf_next.IH bf_next.prems] show ?case .
qed

text \<open>What a successful return says of the last state.\<close>

lemma backfill_Ok_final:
  assumes "backfill E cfg w trace (Ok u) w'"
  obtains st where "bf_run E cfg w trace st" and "\<not> panicked st" and "chunk_queue st = []"
    and "running st = []" and "failures st = []" and "w' = disk st"
  using assms by (cases rule: backfill_OkE) (auto split: if_splits)

lemma final_clean: "\<not> panicked st \<Longrightarrow> running st = [] \<Longrightarrow> failures st = [] \<Longrightarrow> clean st"
  by (simp add: clean_def)

lemma final_book:
  assumes "bf_run E cfg w trace st" and "\<not> panicked st" and "chunk_queue st = []" and "running st = []"
  obtains ranges where "config_ok cfg"
    and "chunk_ranges (bf_overflow_checks E) (start_block cfg) (end_block cfg)
      (chunk_size_by_block_number cfg) = Some (Ok ranges)"
    and "mset (requests trace) = mset ranges" and "mset (map fst (answers trace)) = mset ranges"
proof -
  obtain ranges where "config_ok cfg" "chunk_ranges (bf_overflow_checks E) (start_block cfg) (end_block cfg)
      (chunk_size_by_block_number cfg) = Some (Ok ranges)" and inv: "book_inv cfg ranges trace st"
    by (rule bf_run_book_inv [OF assms(1)])
  moreover have "mset (requests trace) = mset ranges" "mset (map fst (answers trace)) = mset ranges"
    using inv assms(2-4) unfolding book_inv_def by (simp_all del: mset_map)
  ultimately show thesis by (intro that) simp_all
qed

section \<open>An instance\<close>

text \<open>The in-memory file system, the sample decoder and a node of fixed headers.\<close>

definition sample_bf_env :: "(memory, string, nat, string, string, string) bf_env" where
  "sample_bf_env = \<lparr>bf_alloy = sample_alloy,
     bf_address_from_str = (\<lambda>s. case address_literal_value s of
        Some v \<Rightarrow> Ok (word_of_nat v) | None \<Rightarrow> Err ''invalid address''),
     bf_parquet = memory_api, bf_overflow_checks = False, bf_url_parse = Ok, bf_header_name = Ok,
     bf_header_value = Ok, bf_client_build = (\<lambda>headers. Ok ())\<rparr>"

definition sample_bf_config :: BackfillConfig where
  "sample_bf_config = \<lparr>start_block = 5, end_block = 9, chunk_size_by_block_number = 10, parallelism = 2,
     rate_limit_per_second = 3, rpc_http_url = ''https://example.invalid'', rpc_http_key = Some ''secret'',
     rpc_http_auth_header = ''Authorization'', rpc_http_auth_scheme = ''Bearer'', output_dir = ''output''\<rparr>"

definition sample_addresses :: "Address list" where
  "sample_addresses = map (\<lambda>s. word_of_nat (the (address_literal_value s)))
     [CTF_ADDRESS, CTF_EXCHANGE_ADDRESS, NEG_RISK_ADAPTER_ADDRESS]"

text \<open>Its one chunk fetched, one file written, and the end; and a fetch that fails.\<close>

definition fetching_trace :: "bf_event list" where
  "fetching_trace = [Begin_chunk (5, 9), Request (5, 9) (chunk_filter sample_addresses (5, 9))]"

definition sample_trace :: "bf_event list" where
  "sample_trace = fetching_trace @
     [Response (5, 9) (Ok sample_logs), Work (5, 9), Work (5, 9), End_chunk (5, 9)]"

definition failing_trace :: "bf_event list" where
  "failing_trace = fetching_trace @
     [Response (5, 9) (Err ''timeout''), Work (5, 9), End_chunk (5, 9)]"

definition sample_state ::
  "memory \<Rightarrow> usize \<Rightarrow> chunk list \<Rightarrow> (chunk \<times> stage) list \<Rightarrow> string list \<Rightarrow> memory bf_state" where
  "sample_state d n q r fs =
     \<lparr>disk = d, rate_limiter = \<lparr>semaphore = n, max_per_second = 3, refill_read = None\<rparr>,
      filter_addresses = sample_addresses, chunk_queue = q, running = r, failures = fs, panicked = False\<rparr>"

lemma sample_bf_laws: "file_laws sample_bf_env memory_view" "sums_fit sample_bf_config"
  "output_fresh memory_view sample_bf_config memory_start"
  using memory_api_ok
  by (simp_all add: file_laws_def sample_bf_env_def sums_fit_def sample_bf_config_def output_fresh_def
      memory_view_def memory_start_def)

lemma sample_bf_start:
  "backfill_start sample_bf_env sample_bf_config memory_start
     = Some (Ok (sample_state memory_start 3 [(5, 9)] [] []))"
proof -
  have "chunk_ranges False 5 9 10 = Some (Ok [(5, 9)])"
    by (simp add: chunk_ranges_def chunk_loop.simps chunk_end_of_def add_u64_def sub_u64_def min_def)
  then show ?thesis
    by (simp add: backfill_start_def set_up_def validate_config_def build_http_url_def
        build_auth_headers_def sample_bf_env_def sample_bf_config_def RateLimiter_new_def
        MAX_PERMITS_value contract_addresses_def contract_literals_value sample_state_def
        sample_addresses_def)
qed

lemma sample_receive:
  "receive_logs sample_alloy (iter_order memory_api) (5, 9) (Ok sample_logs)
     = Ok (Writing [(''OrderCancelled'', [''order_hash''], sample_rows)] 0)"
  by (simp add: receive_logs_def sample_groups hash_entries_def memory_api_def List.map_filter_def)

lemma sample_write:
  obtains w' where "write_parquet_file memory_api ''output'' ''OrderCancelled'' [''order_hash'']
    (sort_by cmp_rows sample_rows) 5 9 w = (Ok (), w')"
proof -
  have rows: "\<forall>row \<in> set (sort_by cmp_rows sample_rows). length (row_values row) = length [''order_hash'']"
    by (simp add: sample_rows_def sort_by_key)
  have "columns_fit (''OrderCancelled'', [''order_hash''], sort_by cmp_rows sample_rows)"
    unfolding columns_fit_sort by (simp add: sample_rows_def text_bytes_def)
  from write_parquet_file_succeeds [OF memory_api_ok(3,2,5,6) rows this] that show thesis
    by (metis prod.collapse)
qed

lemma sample_bf_env_fields [simp]:
  "bf_alloy sample_bf_env = sample_alloy" "bf_parquet sample_bf_env = memory_api"
  "output_dir sample_bf_config = ''output''" "parallelism sample_bf_config = 2"
  by (simp_all add: sample_bf_env_def sample_bf_config_def)

lemma sample_fetching:
  "bf_run sample_bf_env sample_bf_config memory_start fetching_trace
     (sample_state memory_start 2 [] [((5, 9), Fetching)] [])"
proof -
  let ?E = "sample_bf_env" and ?cfg = "sample_bf_config" and ?c = "(5, 9) :: chunk"
  let ?s0 = "sample_state memory_start 3 [?c] [] []"
  let ?s1 = "sample_state memory_start 3 [] [(?c, Waiting)] []"
  let ?s2 = "sample_state memory_start 2 [] [(?c, Fetching)] []"
  have "bf_step ?E ?cfg (Begin_chunk ?c) ?s0 ?s1"
    using step_begin [of ?s0 ?c "[]" ?cfg ?E] by (simp add: sample_state_def)
  note s1 = bf_next [OF bf_begin [OF sample_bf_start] this]
  have "bf_step ?E ?cfg (Request ?c (chunk_filter sample_addresses ?c)) ?s1 ?s2"
    using step_request [of ?s1 "[]" ?c "[]" "\<lparr>semaphore = 2, max_per_second = 3, refill_read = None\<rparr>" ?E ?cfg]
    by (simp add: sample_state_def acquire_def)
  from bf_next [OF s1 this] show ?thesis by (simp add: fetching_trace_def)
qed

lemma sample_backfill:
  obtains w' where "backfill sample_bf_env sample_bf_config memory_start sample_trace (Ok ()) w'"
proof -
  let ?E = "sample_bf_env" and ?cfg = "sample_bf_config" and ?c = "(5, 9) :: chunk"
  let ?S = "\<lambda>d stg. sample_state d 2 [] [(?c, stg)] []"
  let ?w0 = "Writing [(''OrderCancelled'', [''order_hash''], sample_rows)] 0"
  let ?w1 = "Writing [] 0"
  obtain w' where w': "write_parquet_file memory_api ''output'' ''OrderCancelled'' [''order_hash'']
    (sort_by cmp_rows sample_rows) 5 9 memory_start = (Ok (), w')" by (rule sample_write)
  have "bf_step ?E ?cfg (Response ?c (Ok sample_logs)) (?S memory_start Fetching) (?S memory_start ?w0)"
    using step_response [of "?S memory_start Fetching" "[]" ?c "[]" ?E "Ok sample_logs"]
    by (simp add: sample_state_def sample_receive)
  note s3 = bf_next [OF sample_fetching this]
  have "bf_step ?E ?cfg (Work ?c) (?S memory_start ?w0) (?S w' ?w1)"
    using step_work [of "?S memory_start ?w0" "[]" ?c ?w0 "[]" ?E ?cfg ?w1 "[]" w']
    by (simp add: sample_state_def w')
  note s4 = bf_next [OF s3 this]
  have "bf_step ?E ?cfg (Work ?c) (?S w' ?w1) (?S w' Complete)"
    using step_work [of "?S w' ?w1" "[]" ?c ?w1 "[]" ?E ?cfg Complete "[]" w'] by (simp add: sample_state_def)
  note s5 = bf_next [OF s4 this]
  have "bf_step ?E ?cfg (End_chunk ?c) (?S w' Complete) (sample_state w' 2 [] [] [])"
    using step_end [of "?S w' Complete" "[]" ?c "[]" ?E ?cfg] by (simp add: sample_state_def)
  from returns_finished [OF bf_next [OF s5 this]] that show thesis
    by (simp add: sample_state_def sample_trace_def)
qed

lemma failing_backfill:
  "backfill sample_bf_env sample_bf_config memory_start failing_trace
     (Err (failure_summary [''fetch failed for 5-9: timeout''])) memory_start"
proof -
  let ?E = "sample_bf_env" and ?cfg = "sample_bf_config" and ?c = "(5, 9) :: chunk"
  let ?m = "''fetch failed for 5-9: timeout''"
  let ?S = "\<lambda>stg. sample_state memory_start 2 [] [(?c, stg)]"
  have m: "fetch_failed ?c ''timeout'' = ?m" by (simp add: fetch_failed_def show_u64_def show_nat.simps)
  have "bf_step ?E ?cfg (Response ?c (Err ''timeout'')) (?S Fetching []) (?S (Failing ?m Complete) [])"
    using step_response [of "?S Fetching []" "[]" ?c "[]" ?E "Err ''timeout''"]
    by (simp add: sample_state_def receive_logs_def m)
  note s3 = bf_next [OF sample_fetching this]
  have "bf_step ?E ?cfg (Work ?c) (?S (Failing ?m Complete) []) (?S Complete [?m])"
    using step_work [of "?S (Failing ?m Complete) []" "[]" ?c "Failing ?m Complete" "[]" ?E ?cfg Complete "[?m]" memory_start]
    by (simp add: sample_state_def)
  note s4 = bf_next [OF s3 this]
  have "bf_step ?E ?cfg (End_chunk ?c) (?S Complete [?m]) (sample_state memory_start 2 [] [] [?m])"
    using step_end [of "?S Complete [?m]" "[]" ?c "[]" ?E ?cfg] by (simp add: sample_state_def)
  from returns_finished [OF bf_next [OF s4 this]] show ?thesis
    by (simp add: sample_state_def failing_trace_def)
qed

section \<open>Properties\<close>

lemma backfill_finished:
  assumes "backfill E cfg w trace (Ok ()) w'" and "file_laws E V" and "sums_fit cfg" and "output_fresh V cfg w"
  shows "slices (finished V w')
      = slices (finished V w) + mset (concat (map (log_rows (bf_alloy E)) (received_logs trace)))
    \<and> (\<forall>lg \<in> set (received_logs trace). \<not> lacks_metadata (bf_alloy E) lg)"
proof -
  obtain st where st: "bf_run E cfg w trace st" "\<not> panicked st" "chunk_queue st = []" "running st = []"
    "failures st = []" "w' = disk st" by (rule backfill_Ok_final [OF assms(1)])
  note inv = bf_run_store_inv [OF st(1) assms(2-4) final_clean [OF st(2,4,5)], unfolded store_inv_def]
  have "\<not> lacks_metadata (bf_alloy E) lg" if "lg \<in> set (received_logs trace)" for lg
  proof -
    from that obtain c answer where "(c, answer) \<in> set (answers trace)" "lg \<in> set (answer_logs (c, answer))"
      by (auto simp: received_logs_def)
    then obtain logs where "(c, Ok logs) \<in> set (answers trace)" "lg \<in> set logs" by (cases answer) auto
    with inv st(4) show ?thesis by fastforce
  qed
  with inv st(4,6) show ?thesis by simp
qed

text \<open>C3. End to end, a successful backfill is complete: when \<open>run\<close> returns \<open>Ok\<close>, under every
  interleaving of the chunks, the completed files hold, cut into rows, exactly the rows the frontfill
  indexer would write for all logs the node returned, and nothing else beside what was there before;
  and no log that decodes to an event lacked its metadata.\<close>

theorem backfill_loses_nothing:
  assumes "backfill E cfg w trace (Ok ()) w'" and "file_laws E V" and "sums_fit cfg" and "output_fresh V cfg w"
  shows "slices (finished V w')
      = slices (finished V w) + mset (concat (map (log_rows (bf_alloy E)) (received_logs trace)))
    \<and> (\<forall>lg \<in> set (received_logs trace). \<not> lacks_metadata (bf_alloy E) lg)"
  by (rule backfill_finished [OF assms])

theorem backfill_loses_nothing_witness:
  "\<exists>w'. backfill sample_bf_env sample_bf_config memory_start sample_trace (Ok ()) w'
    \<and> slices (finished memory_view w') = mset (concat (map (log_rows sample_alloy) (received_logs sample_trace)))"
proof -
  obtain w' where b: "backfill sample_bf_env sample_bf_config memory_start sample_trace (Ok ()) w'"
    by (rule sample_backfill)
  have "finished memory_view memory_start = {#}" by (simp add: memory_view_def memory_start_def)
  with backfill_loses_nothing [OF b sample_bf_laws] b show ?thesis by auto
qed

text \<open>C9. A backfill that returns after its chunks, with \<open>Ok\<close> or with a summary of failures, has asked the
  node for every block of the interval once and for no other, when the sum of \<open>end\<close> and the chunk size is a
  \<open>u64\<close>: the block ranges of the filters sent, from \<open>from_block\<close> to \<open>to_block\<close>, follow one another in some order
  from \<open>start_block\<close> to \<open>end_block\<close>; every filter is for the addresses of the contracts; and each range got one
  answer.\<close>

theorem backfill_covers_interval:
  assumes "backfill E cfg w trace r w'" and "backfill_start E cfg w = Some (Ok st0)" and "r \<noteq> Panic"
    and "sums_fit cfg"
  shows "\<exists>ranges. mset (map filter_range (sent_filters trace)) = mset (map Some ranges)
    \<and> mset (map fst (answers trace)) = mset ranges
    \<and> concat (map (\<lambda>(a, b). [unat a..<unat b + 1]) ranges)
        = [unat (start_block cfg)..<unat (end_block cfg) + 1]
    \<and> (\<forall>f \<in> set (sent_filters trace). contract_addresses (bf_address_from_str E) = Ok (filter_address f))"
  using assms(1)
proof cases
  case (returns_finished st)
  obtain ranges where ranges: "config_ok cfg" "chunk_ranges (bf_overflow_checks E) (start_block cfg) (end_block cfg)
      (chunk_size_by_block_number cfg) = Some (Ok ranges)" "mset (requests trace) = mset ranges"
    "mset (map fst (answers trace)) = mset ranges" by (rule final_book [OF returns_finished(3-6)])
  obtain addresses where filters: "contract_addresses (bf_address_from_str E) = Ok addresses"
    "sent_filters trace = map (chunk_filter addresses) (requests trace)"
    by (rule bf_run_filters [OF returns_finished(3)])
  have "filter_range (chunk_filter addresses c) = Some c" for c
    by (cases c) (simp add: filter_range_def chunk_filter_def)
  then have "mset (map filter_range (sent_filters trace)) = mset (map Some ranges)"
    using ranges(3) by (simp add: filters(2) comp_def)
  moreover have "\<forall>f \<in> set (sent_filters trace). contract_addresses (bf_address_from_str E) = Ok (filter_address f)"
    by (auto simp: filters chunk_filter_def)
  ultimately show ?thesis using run_ranges(3) [OF ranges(1) assms(4) ranges(2)] ranges(4) by blast
qed (use assms(2,3) in simp_all)

theorem backfill_covers_interval_witness:
  "\<exists>ranges. mset (map filter_range (sent_filters sample_trace)) = mset (map Some ranges)
    \<and> mset (map fst (answers sample_trace)) = mset ranges
    \<and> concat (map (\<lambda>(a, b). [unat a..<unat b + 1]) ranges) = [5..<10]"
proof -
  obtain w' where b: "backfill sample_bf_env sample_bf_config memory_start sample_trace (Ok ()) w'"
    by (rule sample_backfill)
  have "start_block sample_bf_config = 5" "end_block sample_bf_config = 9"
    by (simp_all add: sample_bf_config_def)
  with backfill_covers_interval [OF b sample_bf_start _ sample_bf_laws(2)] show ?thesis
    by (simp del: upt_Suc) blast
qed

lemma bf_run_limits:
  assumes "bf_run E cfg w trace st"
  shows "length (running st) \<le> unat (parallelism cfg)
    \<and> length (requests trace) \<le> unat (rate_limit_per_second cfg) * (1 + count_list trace Refill_end)"
proof -
  obtain ranges where "config_ok cfg" "chunk_ranges (bf_overflow_checks E) (start_block cfg) (end_block cfg)
      (chunk_size_by_block_number cfg) = Some (Ok ranges)" and inv: "book_inv cfg ranges trace st"
    by (rule bf_run_book_inv [OF assms])
  obtain l where l: "RateLimiter_new (rate_limit_per_second cfg) = Ok l"
    and run: "limiter.bucket_run l (bucket_ops trace) (rate_limiter st)" by (rule bf_run_bucket_run [OF assms])
  from limiter.takes_bounded [OF run RateLimiter_new_inv [OF l]] inv show ?thesis
    by (simp add: bucket_ops_counts book_inv_def)
qed

text \<open>C16. The limits hold in every reachable state: at most \<open>parallelism\<close> chunks are in progress, and
  the requests sent so far are at most \<open>rate_limit_per_second\<close> times one more than the refills.\<close>

theorem backfill_limits:
  assumes "bf_run E cfg w trace st"
  shows "length (running st) \<le> unat (parallelism cfg)
    \<and> length (requests trace) \<le> unat (rate_limit_per_second cfg) * (1 + count_list trace Refill_end)"
  by (rule bf_run_limits [OF assms])

theorem backfill_limits_witness:
  "\<exists>st. bf_run sample_bf_env sample_bf_config memory_start sample_trace st \<and> length (running st) \<le> 2
    \<and> length (requests sample_trace) \<le> 3"
proof -
  obtain w' where "backfill sample_bf_env sample_bf_config memory_start sample_trace (Ok ()) w'"
    by (rule sample_backfill)
  then obtain st where st: "bf_run sample_bf_env sample_bf_config memory_start sample_trace st"
    by (rule backfill_Ok_final)
  have "rate_limit_per_second sample_bf_config = 3" "count_list sample_trace Refill_end = 0"
    by (simp_all add: sample_bf_config_def sample_trace_def fetching_trace_def)
  with backfill_limits [OF st] st show ?thesis by auto
qed

section \<open>What the configuration decides\<close>

text \<open>Every filter sent is for a piece of the interval that is not longer than the chunk size.\<close>

lemma bf_run_requested:
  assumes "bf_run E cfg w trace st" and "sums_fit cfg" and "f \<in> set (sent_filters trace)"
  obtains a b where "filter_range f = Some (a, b)" and "start_block cfg \<le> a" "a \<le> b" "b \<le> end_block cfg"
    and "unat b - unat a < unat (chunk_size_by_block_number cfg)"
proof -
  obtain ranges where cfg: "config_ok cfg" and ranges: "chunk_ranges (bf_overflow_checks E) (start_block cfg)
      (end_block cfg) (chunk_size_by_block_number cfg) = Some (Ok ranges)"
    and inv: "book_inv cfg ranges trace st" by (rule bf_run_book_inv [OF assms(1)])
  obtain addresses where "sent_filters trace = map (chunk_filter addresses) (requests trace)"
    by (rule bf_run_filters [OF assms(1)])
  with assms(3) obtain c where c: "c \<in> set (requests trace)" and f: "f = chunk_filter addresses c" by auto
  obtain a b where ab: "c = (a, b)" by (cases c)
  have "c \<in># mset ranges" using inv c by (simp add: book_inv_def)
  then have mem: "(a, b) \<in> set ranges" by (simp add: ab)
  have size: "chunk_size_by_block_number cfg \<noteq> 0" using cfg by (simp add: config_ok_def)
  obtain rs where rs: "chunk_ranges (bf_overflow_checks E) (start_block cfg) (end_block cfg)
      (chunk_size_by_block_number cfg) = Some (Ok rs)"
    "map nat_range rs = nat_chunks (unat (end_block cfg)) (unat (chunk_size_by_block_number cfg)) (unat (start_block cfg))"
    by (rule chunk_ranges_computes [OF size assms(2) [unfolded sums_fit_def]])
  have "(unat a, unat b) \<in> set (map nat_range ranges)" using mem by (force simp: nat_range_def)
  with rs ranges have "(unat a, unat b) \<in> set (nat_chunks (unat (end_block cfg))
      (unat (chunk_size_by_block_number cfg)) (unat (start_block cfg)))" by simp
  from nat_chunks_bounds [OF this] have "unat b - unat a < unat (chunk_size_by_block_number cfg)" by auto
  moreover have "filter_range f = Some (a, b)" by (simp add: f ab filter_range_def chunk_filter_def)
  ultimately show thesis using that run_ranges(2) [OF cfg assms(2) ranges mem] by blast
qed

text \<open>The client was built for the URL of the configuration, with the header it asks for.\<close>

lemma bf_run_client:
  assumes "bf_run E cfg w trace st"
  obtains url headers where "bf_url_parse E (rpc_http_url cfg) = Ok url"
    and "build_auth_headers (bf_header_name E) (bf_header_value E) (rpc_http_key cfg)
      (rpc_http_auth_header cfg) (rpc_http_auth_scheme cfg) = Ok headers"
    and "bf_client_build E headers = Ok ()"
proof -
  obtain st0 where "backfill_start E cfg w = Some (Ok st0)" by (rule bf_run_start [OF assms])
  then obtain p where "set_up E cfg = Ok p"
    by (auto simp: backfill_start_def split: rs.splits)
  with that show thesis by (auto simp: set_up_def build_http_url_def)
qed

lemma build_auth_headers_Ok:
  assumes "build_auth_headers f g key header scheme = Ok headers"
  shows "case key of
      None \<Rightarrow> headers = []
    | Some k \<Rightarrow> if k = [] then headers = []
        else \<exists>name value. f header = Ok name
          \<and> g (if scheme = [] then k else scheme @ '' '' @ k) = Ok value \<and> headers = [(name, value)]"
  using assms by (auto simp: build_auth_headers_def split: option.splits if_splits)

text \<open>Without a failure the only new files are those of chunks in the output directory.\<close>

lemma clean_step:
  assumes "bf_step E cfg ev st st'" and "clean st'"
  shows "clean st"
  using assms(1)
proof cases
  case (step_work xs c stg ys stg' messages w')
  have no_messages: "messages = []" using assms(2) by (simp add: step_work clean_def)
  have "stg \<noteq> Failing message next" for message "next"
    using step_work(6) no_messages by auto
  with assms(2) step_work show ?thesis by (auto simp: clean_def)
qed (use assms(2) in \<open>auto simp: clean_def\<close>)

lemma bf_run_paths:
  assumes "bf_run E cfg w trace st" and laws: "file_laws E V" and fit: "sums_fit cfg"
    and fresh: "output_fresh V cfg w" and "clean st"
  shows "data_paths V (disk st) \<subseteq> data_paths V w \<union> {chunk_file (output_dir cfg) et c |et c. True}"
  using assms(1,5)
proof (induction rule: bf_run.induct)
  case (bf_begin st)
  then show ?case by (elim backfill_start_Ok) auto
next
  case (bf_next trace st ev st')
  have cl: "clean st" by (rule clean_step [OF bf_next.hyps(2) bf_next.prems])
  note IH = bf_next.IH [OF cl]
  from bf_next.hyps(2) show ?case
  proof cases
    case (step_work xs c stg ys stg' messages w')
    have stages: "stages_ok st"
      by (rule bf_run_stages_ok [OF bf_next.hyps(1)]) (use laws in \<open>simp add: file_laws_def\<close>)
    have mem: "(c, stg) \<in> set (running st)" by (simp add: step_work)
    then have groups: "groups_ok (stage_groups stg)" using stages by (auto simp: stages_ok_def)
    have no_fail: "stg \<noteq> Failing message next" for message "next"
      using cl mem by (auto simp: clean_def)
    have no_fail': "stg' \<noteq> Failing message next" for message "next"
      using bf_next.prems by (auto simp: step_work clean_def)
    have new: "chunk_file (output_dir cfg) et c \<notin> data_paths V (disk st)"
      if "plain_segment et" "et \<in> fst ` set (stage_groups stg)" for et
    proof -
      have "may_write st et c" unfolding may_write_def using mem that(2) by blast
      with bf_run_store_inv [OF bf_next.hyps(1) laws fit fresh cl] that(1) show ?thesis
        unfolding store_inv_def by blast
    qed
    have "data_paths V w' = data_paths V (disk st)
        \<or> (\<exists>et. data_paths V w' = insert (chunk_file (output_dir cfg) et c) (data_paths V (disk st)))"
      by (rule chunk_work_clean [where V = V, OF step_work(6,5) _ _ groups no_fail no_fail' new])
        (use laws in \<open>auto simp: file_laws_def\<close>)
    moreover have "chunk_file (output_dir cfg) et c \<in> {chunk_file (output_dir cfg) et c |et c. True}" for et
      by blast
    moreover have "disk st' = w'" by (simp add: step_work)
    ultimately show ?thesis using IH by (elim disjE exE) (simp_all only: insert_subset Un_iff simp_thms)
  qed (use IH bf_next.prems in \<open>simp_all add: clean_def\<close>)
qed

section \<open>Failures\<close>

text \<open>
  Every failure is on its way: the error of a failed fetch is in the list or in the stage that pushes
  it, and the count of logs without metadata is in the stage of its chunk until it is pushed.
\<close>

fun stage_failures :: "chunk \<Rightarrow> stage \<Rightarrow> string list" where
  "stage_failures c (Failing message stg) = message # stage_failures c stg"
| "stage_failures c (Writing entries n) = (if 0 < n then [metadata_missing n c] else [])"
| "stage_failures c stg = []"

definition missing_count :: "alloy \<Rightarrow> Log list \<Rightarrow> u64" where
  "missing_count A logs = word_of_nat (min (length (filter (lacks_metadata A) logs)) (2 ^ 64 - 1))"

fun answer_failure :: "alloy \<Rightarrow> chunk \<times> Log list rs \<Rightarrow> string option" where
  "answer_failure A (c, Err e) = Some (fetch_failed c e)"
| "answer_failure A (c, Ok logs) =
     (if 0 < missing_count A logs then Some (metadata_missing (missing_count A logs) c) else None)"
| "answer_failure A (c, Panic) = None"

definition failure_inv :: "alloy \<Rightarrow> bf_event list \<Rightarrow> 'w bf_state \<Rightarrow> bool" where
  "failure_inv A trace st \<longleftrightarrow> panicked st \<or>
     (\<forall>c answer m. (c, answer) \<in> set (answers trace) \<longrightarrow> answer_failure A (c, answer) = Some m \<longrightarrow>
        m \<in> set (failures st) \<or> (\<exists>stg. (c, stg) \<in> set (running st) \<and> m \<in> set (stage_failures c stg)))"

lemma missing_count_groups:
  assumes "group_logs A logs ([], 0) = Ok (m, n)"
  shows "n = missing_count A logs"
proof -
  from group_logs_groups(3) [OF assms groups_ok_Nil]
  have n: "unat n = min (length (filter (lacks_metadata A) logs)) (2 ^ 64 - 1)" by simp
  have "n = word_of_nat (unat n)" by simp
  then show ?thesis unfolding missing_count_def n .
qed

lemma receive_logs_failures:
  assumes "receive_logs A order c answer = Ok stg" and "answer_failure A (c, answer) = Some m"
  shows "m \<in> set (stage_failures c stg)"
proof (cases answer)
  case (Ok logs)
  with assms(1) obtain by_event n where "group_logs A logs ([], 0) = Ok (by_event, n)"
    "stg = Writing (hash_entries order by_event) n" by (auto simp: receive_logs_def)
  with missing_count_groups [OF this(1)] assms(2) Ok show ?thesis by (auto split: if_splits)
qed (use assms in \<open>auto simp: receive_logs_def\<close>)

lemma chunk_work_failures:
  assumes "chunk_work P out c stg w = (Ok (stg', messages), w')" and "m \<in> set (stage_failures c stg)"
  shows "m \<in> set messages \<or> m \<in> set (stage_failures c stg')"
  using assms by (cases "(P, out, c, stg, w)" rule: chunk_work.cases)
    (auto split: if_splits rs.splits prod.splits)

lemma failure_inv_keep:
  assumes "failure_inv A trace st" and "\<not> panicked st" and "set (failures st) \<subseteq> set (failures st')"
    and "answers trace' = answers trace"
    and "\<And>c stg m. (c, stg) \<in> set (running st) \<Longrightarrow> m \<in> set (stage_failures c stg) \<Longrightarrow>
      m \<in> set (failures st') \<or> (\<exists>stg'. (c, stg') \<in> set (running st') \<and> m \<in> set (stage_failures c stg'))"
  shows "failure_inv A trace' st'"
  unfolding failure_inv_def
proof (rule disjI2, intro allI impI)
  fix c answer m
  assume "(c, answer) \<in> set (answers trace')" and "answer_failure A (c, answer) = Some m"
  with assms(1,2,4) have "m \<in> set (failures st) \<or>
    (\<exists>stg. (c, stg) \<in> set (running st) \<and> m \<in> set (stage_failures c stg))"
    unfolding failure_inv_def by metis
  with assms(3,5) show "m \<in> set (failures st') \<or>
    (\<exists>stg. (c, stg) \<in> set (running st') \<and> m \<in> set (stage_failures c stg))" by blast
qed

lemma failure_inv_response:
  assumes inv: "failure_inv A trace st" and np: "\<not> panicked st" and r: "running st = xs @ (c, Fetching) # ys"
    and recv: "receive_logs A order c answer = Ok stg"
  shows "failure_inv A (trace @ [Response c answer]) (st\<lparr>running := xs @ (c, stg) # ys\<rparr>)"
  unfolding failure_inv_def
proof (rule disjI2, intro allI impI)
  fix c' answer' m
  assume mem: "(c', answer') \<in> set (answers (trace @ [Response c answer]))"
    and f: "answer_failure A (c', answer') = Some m"
  let ?st = "st\<lparr>running := xs @ (c, stg) # ys\<rparr>"
  show "m \<in> set (failures ?st) \<or> (\<exists>stg. (c', stg) \<in> set (running ?st) \<and> m \<in> set (stage_failures c' stg))"
  proof (cases "(c', answer') \<in> set (answers trace)")
    case True
    with f inv np have "m \<in> set (failures st) \<or>
      (\<exists>stg. (c', stg) \<in> set (running st) \<and> m \<in> set (stage_failures c' stg))"
      unfolding failure_inv_def by blast
    then show ?thesis by (auto simp: r)
  next
    case False
    with mem have "c' = c" "answer' = answer" by auto
    with receive_logs_failures [OF recv] f show ?thesis by auto
  qed
qed

lemma failure_inv_step:
  assumes "bf_step E cfg ev st st'" and inv: "failure_inv (bf_alloy E) trace st"
  shows "failure_inv (bf_alloy E) (trace @ [ev]) st'"
  using assms(1)
proof cases
  case (step_response xs c ys answer stg)
  from failure_inv_response [OF inv step_response(3,4,5)] show ?thesis unfolding step_response(1,2) .
next
  case (step_work xs c stg ys stg' messages w')
  show ?thesis
    by (rule failure_inv_keep [OF inv step_work(3)])
      (use chunk_work_failures [OF step_work(6)] in \<open>auto simp: step_work\<close>)
next
  case (step_begin c cs)
  show ?thesis
    by (rule failure_inv_keep [OF inv step_begin(3)]) (auto simp: step_begin)
next
  case (step_request xs c ys l)
  show ?thesis
    by (rule failure_inv_keep [OF inv step_request(3)]) (auto simp: step_request)
next
  case (step_end xs c ys)
  show ?thesis
    by (rule failure_inv_keep [OF inv step_end(3)]) (auto simp: step_end)
next
  case step_refill_begin
  show ?thesis
    by (rule failure_inv_keep [OF inv step_refill_begin(3)]) (auto simp: step_refill_begin)
next
  case (step_refill_end l)
  show ?thesis
    by (rule failure_inv_keep [OF inv step_refill_end(3)]) (auto simp: step_refill_end)
qed (simp_all add: failure_inv_def)

lemma bf_run_failure_inv: "bf_run E cfg w trace st \<Longrightarrow> failure_inv (bf_alloy E) trace st"
  by (induction rule: bf_run.induct) (simp add: failure_inv_def, rule failure_inv_step)

text \<open>C12. No failure is silent: a failed fetch, and decoded logs of a chunk that lack metadata, end \<open>run\<close>
  with an error (or a panic), and the message of the failure, naming the chunk, is among those the
  summary lists.\<close>

theorem backfill_reports_failures:
  assumes "backfill E cfg w trace r w'" and "(c, answer) \<in> set (answers trace)"
    and "answer_failure (bf_alloy E) (c, answer) = Some m" and "r \<noteq> Panic"
  shows "\<exists>fs. r = Err (failure_summary fs) \<and> m \<in> set fs"
  using assms(1)
proof cases
  case (returns_finished st)
  from bf_run_failure_inv [OF returns_finished(3)] returns_finished assms(2,3)
  have "m \<in> set (failures st)" unfolding failure_inv_def by fastforce
  with returns_finished show ?thesis by (cases "failures st") auto
qed (use assms in simp_all)

theorem backfill_reports_failures_witness:
  "\<exists>fs. (Err (failure_summary [''fetch failed for 5-9: timeout'']) :: unit rs) = Err (failure_summary fs)
    \<and> fetch_failed (5, 9) ''timeout'' \<in> set fs"
  by (rule backfill_reports_failures [OF failing_backfill, of "(5, 9)" "Err ''timeout''"])
    (simp_all add: failing_trace_def fetching_trace_def answers_def)

section \<open>Runs without failures\<close>

lemma group_logs_returns:
  assumes "\<forall>lg \<in> set logs. decode_log A lg \<noteq> Panic"
  shows "\<exists>m n. group_logs A logs s = Ok (m, n)"
  using assms
proof (induction logs arbitrary: s)
  case Nil
  then show ?case by (cases s) simp
next
  case (Cons lg logs)
  have "\<exists>s'. group_log A lg s = Ok s'"
    using Cons.prems by (cases s; cases "decode_log A lg") (auto simp: group_log_def split: option.split)
  then obtain s' where "group_log A lg s = Ok s'" ..
  with Cons show ?case by simp
qed

text \<open>The answers of a trace are logs, and no decoder panics on them.\<close>

definition answers_decode :: "alloy \<Rightarrow> bf_event list \<Rightarrow> bool" where
  "answers_decode A trace \<longleftrightarrow> (\<forall>(c, answer) \<in> set (answers trace).
     answer \<noteq> Panic \<and> (\<forall>lg \<in> set (answer_logs (c, answer)). decode_log A lg \<noteq> Panic))"

text \<open>The groups of an answer fit into the arrays of their files; so do those of the running chunks.\<close>

definition answer_fits :: "alloy \<Rightarrow> Log list rs \<Rightarrow> bool" where
  "answer_fits A answer \<longleftrightarrow> (\<forall>logs m n. answer = Ok logs \<longrightarrow> group_logs A logs ([], 0) = Ok (m, n) \<longrightarrow>
     (\<forall>g \<in> set m. columns_fit g))"

definition answers_fit :: "alloy \<Rightarrow> bf_event list \<Rightarrow> bool" where
  "answers_fit A trace \<longleftrightarrow> (\<forall>(c, answer) \<in> set (answers trace). answer_fits A answer)"

definition stages_fit :: "'w bf_state \<Rightarrow> bool" where
  "stages_fit st \<longleftrightarrow> (\<forall>(c, stg) \<in> set (running st). \<forall>g \<in> set (stage_groups stg). columns_fit g)"

lemma receive_logs_fit:
  assumes "hash_iter_ok order" and "receive_logs A order c answer = Ok stg" and "answer_fits A answer"
  shows "\<forall>g \<in> set (stage_groups stg). columns_fit g"
proof (cases answer)
  case (Ok logs)
  with assms(2) obtain m n where g: "group_logs A logs ([], 0) = Ok (m, n)"
    and stg: "stg = Writing (hash_entries order m) n" by (auto simp: receive_logs_def)
  have "mset (hash_entries order m) = mset m"
    by (rule hash_entries_permutation [OF assms(1)])
      (use group_logs_groups(1) [OF g groups_ok_Nil] in \<open>simp add: groups_ok_def\<close>)
  then have "set (hash_entries order m) = set m" by (rule mset_eq_setD)
  with assms(3) Ok g show ?thesis by (simp add: stg answer_fits_def)
qed (use assms(2) in \<open>auto simp: receive_logs_def\<close>)

lemma chunk_work_fit:
  assumes "chunk_work P out c stg w = (Ok (stg', messages), w')"
  shows "set (stage_groups stg') \<subseteq> set (stage_groups stg)"
  using assms by (cases "(P, out, c, stg, w)" rule: chunk_work.cases)
    (auto split: if_splits rs.splits prod.splits)

lemma stages_fit_step:
  assumes "bf_step E cfg ev st st'" and "hash_iter_ok (iter_order (bf_parquet E))" and "stages_fit st"
    and "\<forall>(c, answer) \<in> set (event_answers ev). answer_fits (bf_alloy E) answer"
  shows "stages_fit st'"
  using assms(1)
proof cases
  case (step_response xs c ys answer stg)
  with assms(4) receive_logs_fit [OF assms(2) step_response(5)] assms(3) show ?thesis
    by (auto simp: stages_fit_def)
next
  case (step_work xs c stg ys stg' messages w')
  with assms(3) chunk_work_fit [OF step_work(6)] show ?thesis by (auto simp: stages_fit_def)
qed (use assms(3) in \<open>auto simp: stages_fit_def\<close>)

lemma bf_run_stages_fit:
  assumes "bf_run E cfg w trace st" and "hash_iter_ok (iter_order (bf_parquet E))"
    and "answers_fit (bf_alloy E) trace"
  shows "stages_fit st"
  using assms(1,3)
proof (induction rule: bf_run.induct)
  case (bf_begin st)
  from bf_begin(1) show ?case by (rule backfill_start_Ok) (simp add: stages_fit_def)
next
  case (bf_next trace st ev st')
  then have "stages_fit st" "\<forall>(c, answer) \<in> set (event_answers ev). answer_fits (bf_alloy E) answer"
    by (auto simp: answers_fit_def)
  with bf_next(2) assms(2) show ?case by (blast intro: stages_fit_step)
qed

lemma chunk_work_no_panic:
  assumes "no_panics P" "string_arrays_ok P" and "groups_ok (stage_groups stg)"
    and "\<forall>g \<in> set (stage_groups stg). columns_fit g"
  shows "fst (chunk_work P out c stg w) \<noteq> Panic"
proof (cases "(P, out, c, stg, w)" rule: chunk_work.cases)
  case (3 P' out' c' et cols rows entries n w')
  then have "group_ok (et, cols, rows)" using assms(3) by (auto dest: groups_ok_Cons)
  then have "\<forall>row \<in> set (sort_by cmp_rows rows). length (row_values row) = length cols"
    by (simp add: sort_by_key)
  moreover have "columns_fit (et, cols, sort_by cmp_rows rows)"
    using assms(4) 3 by (simp add: columns_fit_sort del: columns_fit.simps)
  ultimately have "fst (write_parquet_file P out et cols (sort_by cmp_rows rows) (fst c) (snd c) w) \<noteq> Panic"
    by (rule write_parquet_file_no_panic [OF assms(1,2)])
  with 3 show ?thesis by (auto split: prod.split rs.split)
qed simp_all

lemma receive_logs_no_panic:
  assumes "answer \<noteq> Panic" and "\<forall>lg \<in> set (answer_logs (c, answer)). decode_log A lg \<noteq> Panic"
  shows "receive_logs A order c answer \<noteq> Panic"
proof (cases answer)
  case (Ok logs)
  with assms(2) obtain m n where "group_logs A logs ([], 0) = Ok (m, n)"
    using group_logs_returns [of logs A "([], 0)"] by auto
  with Ok show ?thesis by (simp add: receive_logs_def)
qed (use assms(1) in \<open>simp_all add: receive_logs_def\<close>)

lemma bf_run_no_panic:
  assumes "bf_run E cfg w trace st" and "no_panics (bf_parquet E)" "string_arrays_ok (bf_parquet E)"
    and "hash_iter_ok (iter_order (bf_parquet E))" and "answers_decode (bf_alloy E) trace"
    and "answers_fit (bf_alloy E) trace"
  shows "\<not> panicked st"
  using assms(1,5,6)
proof (induction rule: bf_run.induct)
  case (bf_begin st)
  from bf_begin(1) show ?case by (rule backfill_start_Ok) simp
next
  case (bf_next trace st ev st')
  have groups: "stages_ok st" by (rule bf_run_stages_ok [OF bf_next(1) assms(4)])
  have fit: "stages_fit st"
    by (rule bf_run_stages_fit [OF bf_next(1) assms(4)]) (use bf_next.prems(2) in \<open>simp add: answers_fit_def\<close>)
  from bf_next(2) show ?case
  proof cases
    case (step_response_panic xs c ys answer)
    with bf_next.prems have "answer \<noteq> Panic" "\<forall>lg \<in> set (answer_logs (c, answer)). decode_log (bf_alloy E) lg \<noteq> Panic"
      by (simp_all add: answers_decode_def)
    from receive_logs_no_panic [OF this] step_response_panic(5) show ?thesis by simp
  next
    case (step_work_panic xs c stg ys w')
    then have "groups_ok (stage_groups stg)" "\<forall>g \<in> set (stage_groups stg). columns_fit g"
      using groups fit by (auto simp: stages_ok_def stages_fit_def)
    from chunk_work_no_panic [OF assms(2,3) this, of "output_dir cfg" c "disk st"] step_work_panic(6)
    show ?thesis by simp
  qed simp_all
qed

text \<open>The libraries used for the set-up do not panic.\<close>

definition set_up_returns :: "('w, 'f, 'h, 'u, 'n, 'v) bf_env \<Rightarrow> bool" where
  "set_up_returns E \<longleftrightarrow> (\<forall>s. bf_url_parse E s \<noteq> Panic) \<and> (\<forall>s. bf_header_name E s \<noteq> Panic)
     \<and> (\<forall>s. bf_header_value E s \<noteq> Panic) \<and> (\<forall>hs. bf_client_build E hs \<noteq> Panic)
     \<and> (\<forall>s. bf_address_from_str E s \<noteq> Panic)"

lemma traverse_rs_no_panic: "\<forall>x \<in> set xs. f x \<noteq> Panic \<Longrightarrow> traverse_rs f xs \<noteq> Panic"
  by (induction xs) (auto simp: bind_rs_Panic_iff)

lemma chunk_ranges_run:
  assumes "config_ok cfg" and "sums_fit cfg"
  obtains ranges where "chunk_ranges checks (start_block cfg) (end_block cfg)
    (chunk_size_by_block_number cfg) = Some (Ok ranges)"
  using assms chunk_ranges_computes [of "chunk_size_by_block_number cfg" "end_block cfg" checks "start_block cfg"]
  by (auto simp: config_ok_def sums_fit_def)

lemma set_up_no_panic:
  assumes "set_up_returns E" and "rate_limit_per_second cfg \<le> MAX_PERMITS"
  shows "set_up E cfg \<noteq> Panic"
proof -
  have "contract_addresses (bf_address_from_str E) \<noteq> Panic"
    unfolding contract_addresses_def by (rule traverse_rs_no_panic) (use assms(1) in \<open>simp add: set_up_returns_def\<close>)
  moreover have "RateLimiter_new (rate_limit_per_second cfg) \<noteq> Panic"
    using assms(2) by (simp add: RateLimiter_new_def)
  moreover have "build_auth_headers (bf_header_name E) (bf_header_value E) (rpc_http_key cfg)
      (rpc_http_auth_header cfg) (rpc_http_auth_scheme cfg) \<noteq> Panic"
    using assms(1)
    by (auto simp: build_auth_headers_def set_up_returns_def bind_rs_Panic_iff split: option.split)
  moreover have "validate_config cfg \<noteq> Panic" by (simp add: validate_config_def)
  ultimately show ?thesis
    using assms(1) by (auto simp: set_up_def build_http_url_def set_up_returns_def bind_rs_Panic_iff)
qed

lemma backfill_start_no_panic:
  assumes "set_up_returns E" and "rate_limit_per_second cfg \<le> MAX_PERMITS" and "sums_fit cfg"
  shows "backfill_start E cfg w \<noteq> Some Panic"
proof (cases "set_up E cfg")
  case (Ok p)
  then have "config_ok cfg" by (auto simp: set_up_def validate_config_iff)
  then obtain ranges where "chunk_ranges (bf_overflow_checks E) (start_block cfg) (end_block cfg)
    (chunk_size_by_block_number cfg) = Some (Ok ranges)" using assms(3) by (rule chunk_ranges_run)
  with Ok show ?thesis by (cases p) (simp add: backfill_start_def)
qed (use set_up_no_panic [OF assms(1,2)] in \<open>simp_all add: backfill_start_def\<close>)

text \<open>Above that limit the semaphore panics, which the validation does not exclude.\<close>

lemma rate_limit_panics:
  "config_ok cfg \<Longrightarrow> MAX_PERMITS < rate_limit_per_second cfg \<Longrightarrow> backfill_start E cfg w = Some Panic"
  by (simp add: backfill_start_def set_up_def RateLimiter_new_def validate_config_iff [THEN iffD2])

text \<open>C20. The backfill never panics, from its start to its return and under every interleaving, when the sum of
  \<open>end\<close> and the chunk size is a \<open>u64\<close>, the rate limit is at most what a semaphore holds, and every answer of the
  node is logs that decode to an event, to none or to an error, or an error, the text columns of no group
  exceeding the offsets of their arrays: the indexing of a row by the columns of its event type is always
  within the row. The library calls of the set-up and of the files are those that may fail but do not panic.\<close>

theorem backfill_never_panics:
  assumes "backfill E cfg w trace r w'"
    and "sums_fit cfg" and "rate_limit_per_second cfg \<le> MAX_PERMITS" and "set_up_returns E"
    and "no_panics (bf_parquet E)" and "string_arrays_ok (bf_parquet E)"
    and "hash_iter_ok (iter_order (bf_parquet E))"
    and "answers_decode (bf_alloy E) trace" and "answers_fit (bf_alloy E) trace"
  shows "r \<noteq> Panic"
  using assms(1)
proof cases
  case panics_at_start
  with backfill_start_no_panic [OF assms(4,3,2)] show ?thesis by simp
next
  case (panics_running st)
  with bf_run_no_panic [OF panics_running(3) assms(5-9)] show ?thesis by simp
qed simp_all

lemma decode_log_sample_returns: "decode_log sample_alloy lg \<noteq> Panic"
proof -
  have v: "value_to_string sample_alloy v \<noteq> Panic" for v
    by (cases v) (simp_all add: value_to_string_def sample_alloy_def)
  have t: "traverse_rs f xs \<noteq> Panic" if "\<And>x. f x \<noteq> Panic" for f :: "string \<times> sol_value \<Rightarrow> (string \<times> string) rs" and xs
    using that by (induction xs) (auto simp: bind_rs_Panic_iff)
  have r: "render_columns sample_alloy cols \<noteq> Panic" for cols
    unfolding render_columns_def by (rule t) (auto simp: v)
  have e: "event_of sample_alloy n cols \<noteq> Panic" for n cols
    by (simp add: event_of_def r)
  have a: "abi_values k sample_alloy lg \<noteq> Panic" for k
    by (cases k) (simp_all add: sample_alloy_def split: list.split)
  have "decode_branch k sample_alloy lg \<noteq> Panic" for k
    by (auto simp: decode_branch_abi_values bind_rs_Panic_iff e a)
  then show ?thesis by (simp add: decode_log_route split: option.split)
qed

lemma sample_answers_fit: "answers_fit sample_alloy sample_trace"
proof -
  have "columns_fit (''OrderCancelled'', [''order_hash''], sample_rows)"
    by (simp add: sample_rows_def text_bytes_def)
  then have "answer_fits sample_alloy (Ok sample_logs)" by (simp add: answer_fits_def sample_groups)
  then show ?thesis by (simp add: answers_fit_def sample_trace_def fetching_trace_def answers_def)
qed

theorem backfill_never_panics_witness:
  "\<exists>w'. backfill sample_bf_env sample_bf_config memory_start sample_trace (Ok ()) w'
    \<and> (Ok () :: unit rs) \<noteq> Panic"
proof -
  obtain w' where b: "backfill sample_bf_env sample_bf_config memory_start sample_trace (Ok ()) w'"
    by (rule sample_backfill)
  have decode: "answers_decode sample_alloy sample_trace"
    by (auto simp: answers_decode_def sample_trace_def fetching_trace_def answers_def decode_log_sample_returns)
  have "set_up_returns sample_bf_env"
    by (simp add: set_up_returns_def sample_bf_env_def split: option.split)
  moreover have "rate_limit_per_second sample_bf_config \<le> MAX_PERMITS"
    by (simp add: sample_bf_config_def MAX_PERMITS_value)
  ultimately show ?thesis
    using backfill_never_panics [OF b sample_bf_laws(2)] memory_api_ok decode sample_answers_fit b by auto
qed

text \<open>No failure so far and none to come: no log without metadata is on its way.\<close>

definition fine :: "'w bf_state \<Rightarrow> bool" where
  "fine st \<longleftrightarrow> \<not> panicked st \<and> failures st = [] \<and> (\<forall>(c, stg) \<in> set (running st).
     stg = Waiting \<or> stg = Fetching \<or> stg = Complete \<or> (\<exists>entries. stg = Writing entries 0))"

lemma chunk_work_succeeds:
  assumes w: "writers_ok P V" "batches_ok P" "calls_succeed P V" "string_arrays_ok P" and "groups_ok entries"
    and "\<forall>g \<in> set entries. columns_fit g"
  shows "\<exists>stg' w'. chunk_work P out c (Writing entries 0) w = (Ok (stg', []), w')
    \<and> (stg' = Complete \<or> (\<exists>rest. stg' = Writing rest 0))"
proof (cases entries)
  case (Cons g rest)
  obtain et cols rows where g: "g = (et, cols, rows)" by (cases g)
  have rows: "\<forall>row \<in> set (sort_by cmp_rows rows). length (row_values row) = length cols"
    using assms(5) Cons by (auto dest!: groups_ok_Cons simp: g sort_by_key)
  have "columns_fit (et, cols, sort_by cmp_rows rows)"
    using assms(6) Cons g by (simp add: columns_fit_sort del: columns_fit.simps)
  from write_parquet_file_succeeds [OF w rows this, of out "fst c" "snd c" w] obtain w' where
    "write_parquet_file P out et cols (sort_by cmp_rows rows) (fst c) (snd c) w = (Ok (), w')"
    by (metis prod.collapse)
  then show ?thesis by (simp add: Cons g)
qed simp

lemma fine_step:
  assumes "bf_step E cfg ev st st'" and "fine st" and "stages_ok st" "stages_fit st" and "file_laws E V"
    and "calls_succeed (bf_parquet E) V" "string_arrays_ok (bf_parquet E)"
    and answer: "\<forall>(c, answer) \<in> set (event_answers ev). \<exists>logs. answer = Ok logs
      \<and> (\<forall>lg \<in> set logs. decode_log (bf_alloy E) lg \<noteq> Panic \<and> \<not> lacks_metadata (bf_alloy E) lg)"
  shows "fine st'"
  using assms(1)
proof cases
  case (step_response xs c ys answer stg)
  with answer obtain logs where logs: "answer = Ok logs"
    "\<forall>lg \<in> set logs. \<not> lacks_metadata (bf_alloy E) lg" by auto
  with step_response(5) assms(5) obtain entries n where "stg = Writing entries n" "\<not> 0 < n"
    unfolding file_laws_def by (metis receive_logs_groups)
  then have "stg = Writing entries 0" by (simp add: word_gt_0)
  with assms(2) step_response show ?thesis by (auto simp: fine_def)
next
  case (step_response_panic xs c ys answer)
  with answer obtain logs where "answer = Ok logs" "\<forall>lg \<in> set logs. decode_log (bf_alloy E) lg \<noteq> Panic" by auto
  with receive_logs_no_panic [of answer c "bf_alloy E"] step_response_panic show ?thesis by simp
next
  case (step_work xs c stg ys stg' messages w')
  then obtain entries where stg: "stg = Writing entries 0" using assms(2) by (auto simp: fine_def)
  moreover have "groups_ok entries" "\<forall>g \<in> set entries. columns_fit g"
    using assms(3,4) stg step_work(4) by (auto simp: stages_ok_def stages_fit_def)
  ultimately show ?thesis
    using chunk_work_succeeds [of "bf_parquet E" V entries "output_dir cfg" c "disk st"] assms(2,5-7) step_work
    by (auto simp: fine_def file_laws_def)
next
  case (step_work_panic xs c stg ys w')
  then obtain entries where stg: "stg = Writing entries 0" using assms(2) by (auto simp: fine_def)
  moreover have "groups_ok entries" "\<forall>g \<in> set entries. columns_fit g"
    using assms(3,4) stg step_work_panic(4) by (auto simp: stages_ok_def stages_fit_def)
  ultimately show ?thesis
    using chunk_work_succeeds [of "bf_parquet E" V entries "output_dir cfg" c "disk st"] assms(5-7) step_work_panic
    by (auto simp: file_laws_def)
qed (use assms(2) in \<open>auto simp: fine_def\<close>)

lemma bf_run_fine:
  assumes "bf_run E cfg w trace st" and "file_laws E V" and "calls_succeed (bf_parquet E) V"
    and "string_arrays_ok (bf_parquet E)"
    and "\<forall>(c, answer) \<in> set (answers trace). \<exists>logs. answer = Ok logs
      \<and> (\<forall>lg \<in> set logs. decode_log (bf_alloy E) lg \<noteq> Panic \<and> \<not> lacks_metadata (bf_alloy E) lg)"
    and "answers_fit (bf_alloy E) trace"
  shows "fine st"
  using assms(1,5,6)
proof (induction rule: bf_run.induct)
  case (bf_begin st)
  from bf_begin(1) show ?case by (rule backfill_start_Ok) (simp add: fine_def)
next
  case (bf_next trace st ev st')
  have hash: "hash_iter_ok (iter_order (bf_parquet E))" using assms(2) by (simp add: file_laws_def)
  have "answers_fit (bf_alloy E) trace" using bf_next.prems(2) by (simp add: answers_fit_def)
  from bf_run_stages_ok [OF bf_next(1) hash] bf_run_stages_fit [OF bf_next(1) hash this] this bf_next
  show ?case by (intro fine_step [OF bf_next(2) _ _ _ assms(2-4)]) auto
qed

text \<open>C17. A backfill without trouble succeeds: once it has started, if every fetch returns logs that carry
  their metadata, the text of no group exceeding the offsets of an array, and no file call fails, it returns
  \<open>Ok\<close>, whatever the interleaving.\<close>

theorem backfill_succeeds:
  assumes "backfill E cfg w trace r w'" and "backfill_start E cfg w = Some (Ok st0)"
    and "file_laws E V" and "calls_succeed (bf_parquet E) V" and "string_arrays_ok (bf_parquet E)"
    and "\<forall>(c, answer) \<in> set (answers trace). \<exists>logs. answer = Ok logs
      \<and> (\<forall>lg \<in> set logs. decode_log (bf_alloy E) lg \<noteq> Panic \<and> \<not> lacks_metadata (bf_alloy E) lg)"
    and "answers_fit (bf_alloy E) trace"
  shows "r = Ok ()"
  using assms(1)
proof cases
  case (returns_finished st)
  with bf_run_fine [OF returns_finished(3) assms(3-7)] show ?thesis by (simp add: fine_def)
next
  case (panics_running st)
  with bf_run_fine [OF panics_running(3) assms(3-7)] show ?thesis by (simp add: fine_def)
qed (use assms(2) in simp_all)

theorem backfill_succeeds_witness:
  "\<exists>r w'. backfill sample_bf_env sample_bf_config memory_start sample_trace r w' \<and> r = Ok ()"
proof -
  obtain w' where b: "backfill sample_bf_env sample_bf_config memory_start sample_trace (Ok ()) w'"
    by (rule sample_backfill)
  have "\<not> lacks_metadata sample_alloy lg" if "lg \<in> set sample_logs" for lg
    using that by (auto simp: lacks_metadata_def sample_logs_def sample_log_def)
  then have "\<forall>(c, answer) \<in> set (answers sample_trace). \<exists>logs. answer = Ok logs
      \<and> (\<forall>lg \<in> set logs. decode_log sample_alloy lg \<noteq> Panic \<and> \<not> lacks_metadata sample_alloy lg)"
    by (auto simp: sample_trace_def fetching_trace_def answers_def decode_log_sample_returns)
  with backfill_succeeds [OF b sample_bf_start sample_bf_laws(1)] memory_api_ok(5,6) sample_answers_fit b
  show ?thesis by auto
qed

section \<open>Termination and progress\<close>

definition refill_event :: "bf_event \<Rightarrow> bool" where
  "refill_event ev \<longleftrightarrow> ev = Refill_begin \<or> ev = Refill_end"

text \<open>What is left to do: the chunks that have no answer, then the files and failures of the others.\<close>

fun unanswered :: "stage \<Rightarrow> nat" where
  "unanswered Waiting = 2"
| "unanswered Fetching = 1"
| "unanswered (Failing message stg) = unanswered stg"
| "unanswered stg = 0"

fun work_left :: "stage \<Rightarrow> nat" where
  "work_left (Failing message stg) = Suc (work_left stg)"
| "work_left (Writing entries n) = 2 * length entries + 3"
| "work_left stg = 1"

definition unanswered_total :: "'w bf_state \<Rightarrow> nat" where
  "unanswered_total st = 3 * length (chunk_queue st) + sum_list (map (unanswered \<circ> snd) (running st))"

definition work_total :: "'w bf_state \<Rightarrow> nat" where
  "work_total st = sum_list (map (work_left \<circ> snd) (running st)) + (if panicked st then 0 else 1)"

lemma receive_logs_unanswered: "receive_logs A order c answer = Ok stg \<Longrightarrow> unanswered stg = 0"
  by (auto simp: receive_logs_def split: rs.splits)

lemma chunk_work_less:
  assumes "chunk_work P out c stg w = (Ok (stg', messages), w')" and "working stg"
  shows "work_left stg' < work_left stg \<and> unanswered stg' = unanswered stg"
  using assms by (cases "(P, out, c, stg, w)" rule: chunk_work.cases)
    (auto split: if_splits rs.splits prod.splits)

lemma bf_step_measure:
  assumes "bf_step E cfg ev st st'" and "\<not> refill_event ev"
  shows "(st', st) \<in> measures [unanswered_total, work_total]"
  using assms(1)
proof cases
  case (step_response xs c ys answer stg)
  with receive_logs_unanswered [OF step_response(5)] show ?thesis by (simp add: unanswered_total_def)
next
  case (step_work xs c stg ys stg' messages w')
  with chunk_work_less [OF step_work(6,5)] show ?thesis
    by (simp add: unanswered_total_def work_total_def)
qed (use assms(2) in \<open>simp_all add: unanswered_total_def work_total_def refill_event_def\<close>)

text \<open>Any number of turns of the refill task.\<close>

inductive refills ::
  "('w, 'f, 'h, 'u, 'n, 'v) bf_env \<Rightarrow> BackfillConfig \<Rightarrow> 'w bf_state \<Rightarrow> 'w bf_state \<Rightarrow> bool"
  for E cfg where
  no_refill: "refills E cfg st st"
| more_refills: "refills E cfg st st' \<Longrightarrow> refill_event ev \<Longrightarrow> bf_step E cfg ev st' st'' \<Longrightarrow> refills E cfg st st''"

lemma refills_measure:
  "refills E cfg st st' \<Longrightarrow> unanswered_total st' = unanswered_total st \<and> work_total st' = work_total st"
proof (induction rule: refills.induct)
  case (more_refills st st' ev st'')
  from more_refills.hyps(3,2) have "unanswered_total st'' = unanswered_total st' \<and> work_total st'' = work_total st'"
    by cases (simp_all add: refill_event_def unanswered_total_def work_total_def)
  with more_refills.IH show ?case by simp
qed simp

text \<open>C19. The backfill terminates: no run takes infinitely many steps of its chunks, whatever the node answers,
  however the chunks interleave, and however many turns of the refill task, which goes on for ever, come between
  them. In particular no chunk is fetched again and again.\<close>

theorem backfill_terminates:
  "wf {(st'', st). \<exists>st' ev. refills E cfg st st' \<and> bf_step E cfg ev st' st'' \<and> \<not> refill_event ev}"
proof (rule wf_subset [OF wf_measures])
  show "{(st'', st). \<exists>st' ev. refills E cfg st st' \<and> bf_step E cfg ev st' st'' \<and> \<not> refill_event ev}
      \<subseteq> measures [unanswered_total, work_total]"
  proof (clarify)
    fix st'' st st' ev
    assume "refills E cfg st st'" and "bf_step E cfg ev st' st''" and "\<not> refill_event ev"
    with refills_measure [of E cfg st st'] bf_step_measure [of E cfg ev st' st'']
    show "(st'', st) \<in> measures [unanswered_total, work_total]" by simp
  qed
qed

lemma chunk_work_returns:
  obtains stg' messages w' where "chunk_work P out c stg w = (Ok (stg', messages), w')"
  | w' where "chunk_work P out c stg w = (Panic, w')"
proof (cases "(P, out, c, stg, w)" rule: chunk_work.cases)
  case (3 P' out' c' et cols rows entries n w')
  obtain r w1 where "write_parquet_file P' out' et cols (sort_by cmp_rows rows) (fst c') (snd c') w' = (r, w1)"
    by fastforce
  with 3 that show thesis by (cases r) auto
qed (use that in auto)

lemma receive_logs_returns:
  obtains stg where "receive_logs A order c answer = Ok stg" | "receive_logs A order c answer = Panic"
proof (cases answer)
  case (Ok logs)
  have "group_logs A logs s \<noteq> Err e" for s e
  proof (induction logs arbitrary: s)
    case (Cons lg logs)
    have "group_log A lg s \<noteq> Err e"
      by (cases s) (auto simp: group_log_def split: option.split rs.split)
    with Cons show ?case by (auto simp: bind_rs_Err_iff)
  qed (auto split: prod.split)
  with Ok that show thesis by (cases "receive_logs A order c answer") (auto simp: receive_logs_def)
qed (use that in \<open>auto simp: receive_logs_def\<close>)

text \<open>A state with a chunk in it takes a step, a chunk that waits for a permit provided there is one.\<close>

lemma running_step:
  assumes "\<not> panicked st" and "running st = (c, stg) # ys"
    and "stg = Waiting \<Longrightarrow> acquire (rate_limiter st) \<noteq> None"
  shows "\<exists>ev st'. bf_step E cfg ev st st' \<and> \<not> refill_event ev
    \<and> (\<forall>c' a. ev = Response c' a \<longrightarrow> a = answer c')"
proof (cases "working stg")
  case True
  show ?thesis
    by (rule chunk_work_returns [of "bf_parquet E" "output_dir cfg" c stg "disk st"])
      (use True assms(1,2) step_work [of st "[]" c stg ys E cfg] step_work_panic [of st "[]" c stg ys E cfg]
        in \<open>fastforce simp: refill_event_def\<close>)+
next
  case False
  then consider "stg = Waiting" | "stg = Fetching" | "stg = Complete" by (cases stg) auto
  then show ?thesis
  proof cases
    case 1
    then obtain l where "acquire (rate_limiter st) = Some l" using assms(3) by auto
    from step_request [OF assms(1) _ this, of "[]" c ys E cfg] assms(2) 1 show ?thesis
      by (auto simp: refill_event_def intro!: exI)
  next
    case 2
    show ?thesis
    proof (rule receive_logs_returns [of "bf_alloy E" "iter_order (bf_parquet E)" c "answer c"])
      fix stg'
      assume "receive_logs (bf_alloy E) (iter_order (bf_parquet E)) c (answer c) = Ok stg'"
      from step_response [OF assms(1) _ this, of "[]" ys cfg] assms(2) 2 show ?thesis
        by (auto simp: refill_event_def intro!: exI)
    next
      assume "receive_logs (bf_alloy E) (iter_order (bf_parquet E)) c (answer c) = Panic"
      from step_response_panic [OF assms(1) _ this, of "[]" ys cfg] assms(2) 2 show ?thesis
        by (auto simp: refill_event_def intro!: exI)
    qed
  next
    case 3
    from step_end [OF assms(1), of "[]" c ys E cfg] assms(2) 3 show ?thesis
      by (auto simp: refill_event_def intro!: exI)
  qed
qed

text \<open>Refills bring a permit: at most the end of one in progress and one more turn.\<close>

lemma refill_turn:
  assumes run: "bf_run E cfg w trace st" and "\<not> panicked st" and "refill_read (rate_limiter st) = None"
    and inv: "limiter_inv n (rate_limiter st)" and "n \<noteq> 0"
  shows "\<exists>l. bf_run E cfg w (trace @ [Refill_begin, Refill_end]) (st\<lparr>rate_limiter := l\<rparr>) \<and> acquire l \<noteq> None"
proof -
  obtain l where l: "refill_end (refill_begin (rate_limiter st)) = Ok l" "acquire l \<noteq> None"
    using refill_restores_limit [OF inv assms(5)] by auto
  note r1 = bf_next [OF run step_refill_begin [OF assms(2,3)]]
  have "bf_step E cfg Refill_end (st\<lparr>rate_limiter := refill_begin (rate_limiter st)\<rparr>) (st\<lparr>rate_limiter := l\<rparr>)"
    using step_refill_end [of "st\<lparr>rate_limiter := refill_begin (rate_limiter st)\<rparr>" l E cfg] l(1) assms(2)
    by (simp add: refill_begin_def)
  from bf_next [OF r1 this] l(2) show ?thesis by auto
qed

lemma permit_comes:
  assumes run: "bf_run E cfg w trace st" and "\<not> panicked st"
    and inv: "limiter_inv n (rate_limiter st)" and "n \<noteq> 0"
  shows "\<exists>refills l. set refills \<subseteq> {Refill_begin, Refill_end} \<and> length refills \<le> 3
    \<and> bf_run E cfg w (trace @ refills) (st\<lparr>rate_limiter := l\<rparr>) \<and> acquire l \<noteq> None"
proof (cases "refill_read (rate_limiter st)")
  case None
  from refill_turn [OF run assms(2) None inv assms(4)] show ?thesis
    by (auto intro!: exI [of _ "[Refill_begin, Refill_end]"])
next
  case (Some a)
  with refill_end_inv [OF inv] obtain l1 where l1: "refill_end (rate_limiter st) = Ok l1" "limiter_inv n l1"
    "refill_read l1 = None" by auto
  have run1: "bf_run E cfg w (trace @ [Refill_end]) (st\<lparr>rate_limiter := l1\<rparr>)"
    by (rule bf_next [OF run step_refill_end]) (use assms(2) Some l1(1) in simp_all)
  from refill_turn [OF run1 _ _ _ assms(4)] assms(2) l1(2,3) show ?thesis
    by (auto intro!: exI [of _ "[Refill_end, Refill_begin, Refill_end]"])
qed

text \<open>C18. The backfill never gets stuck: from every state a run reaches before its return, whatever the
  node will answer, at most three half turns of the refill task enable a step of a chunk.\<close>

theorem backfill_progress:
  assumes "bf_run E cfg w trace st" and "\<not> panicked st" and "chunk_queue st \<noteq> [] \<or> running st \<noteq> []"
  shows "\<exists>refills ev st'. set refills \<subseteq> {Refill_begin, Refill_end} \<and> length refills \<le> 3
    \<and> \<not> refill_event ev \<and> bf_run E cfg w (trace @ refills @ [ev]) st'
    \<and> (\<forall>c a. ev = Response c a \<longrightarrow> a = answer c)"
proof -
  obtain ranges where cfg: "config_ok cfg" and inv: "book_inv cfg ranges trace st"
    by (rule bf_run_book_inv [OF assms(1)])
  have lim: "limiter_inv (rate_limit_per_second cfg) (rate_limiter st)" using inv by (simp add: book_inv_def)
  show ?thesis
  proof (cases "running st")
    case Nil
    with assms(3) obtain c cs where q: "chunk_queue st = c # cs" by (cases "chunk_queue st") auto
    have "0 < unat (parallelism cfg)" using cfg by (simp add: config_ok_def unat_gt_0)
    then have "bf_step E cfg (Begin_chunk c) st (st\<lparr>chunk_queue := cs, running := running st @ [(c, Waiting)]\<rparr>)"
      using step_begin [OF assms(2) q] Nil by simp
    from bf_next [OF assms(1) this] show ?thesis
      by (intro exI [of _ "[]"] exI [of _ "Begin_chunk c"]) (auto simp: refill_event_def)
  next
    case (Cons r ys)
    obtain c stg where r: "r = (c, stg)" by fastforce
    obtain refills l where refills: "set refills \<subseteq> {Refill_begin, Refill_end}" "length refills \<le> 3"
      and run: "bf_run E cfg w (trace @ refills) (st\<lparr>rate_limiter := l\<rparr>)" and l: "acquire l \<noteq> None"
      using permit_comes [OF assms(1,2) lim] cfg by (auto simp: config_ok_def)
    obtain ev st' where "bf_step E cfg ev (st\<lparr>rate_limiter := l\<rparr>) st'" "\<not> refill_event ev"
      "\<forall>c a. ev = Response c a \<longrightarrow> a = answer c"
      using running_step [of "st\<lparr>rate_limiter := l\<rparr>" c stg ys E cfg answer] assms(2) Cons r l by auto
    with bf_next [OF run this(1)] refills show ?thesis by (metis append_assoc)
  qed
qed

theorem backfill_progress_witness:
  "\<exists>refills ev st'. length refills \<le> 3 \<and> \<not> refill_event ev
    \<and> bf_run sample_bf_env sample_bf_config memory_start (fetching_trace @ refills @ [ev]) st'
    \<and> (\<forall>c a. ev = Response c a \<longrightarrow> a = Ok [])"
proof -
  have "\<not> panicked (sample_state memory_start 2 [] [((5, 9), Fetching)] [])"
    "running (sample_state memory_start 2 [] [((5, 9), Fetching)] []) \<noteq> []"
    by (simp_all add: sample_state_def)
  with backfill_progress [OF sample_fetching, of "\<lambda>c. Ok []"] show ?thesis by blast
qed

section \<open>Validation and authentication\<close>

text \<open>\<open>run\<close> has no other outcome than this error, without a request and with the files as they were.\<close>

definition only_rejects ::
  "('w, 'f, 'h, 'u, 'n, 'v) bf_env \<Rightarrow> BackfillConfig \<Rightarrow> 'w \<Rightarrow> anyhow \<Rightarrow> bool" where
  "only_rejects E cfg w e \<longleftrightarrow>
     (\<forall>trace r w'. backfill E cfg w trace r w' \<longleftrightarrow> trace = [] \<and> r = Err e \<and> w' = w)"

lemma rejected_config:
  assumes "validate_config cfg = Err e"
  shows "only_rejects E cfg w e"
proof -
  have s: "backfill_start E cfg w = Some (Err e)" using assms by (simp add: backfill_start_def set_up_def)
  have "trace = [] \<and> r = Err e \<and> w' = w" if "backfill E cfg w trace r w'" for trace r w'
    using that
  proof cases
    case (returns_finished st)
    from bf_run_start [OF returns_finished(3)] s show ?thesis by auto
  next
    case (panics_running st)
    from bf_run_start [OF panics_running(3)] s show ?thesis by auto
  qed (use s in simp_all)
  with s show ?thesis unfolding only_rejects_def by (blast intro: returns_rejected)
qed

text \<open>C31. A configuration that violates a limit is rejected with the message of its first violation, in the
  order start and end, chunk size, parallelism, rate limit; \<open>run\<close> then has no other outcome, sends no request
  and leaves the files alone. With a valid configuration whose end plus chunk size is a \<open>u64\<close>, the set-up
  always reaches a decision.\<close>

theorem backfill_validates:
  "(end_block cfg < start_block cfg \<longrightarrow> only_rejects E cfg w ''start-block must be <= end-block'')
    \<and> (start_block cfg \<le> end_block cfg \<longrightarrow>
        (chunk_size_by_block_number cfg = 0 \<longrightarrow> only_rejects E cfg w ''chunk-size-by-block-number must be > 0'')
        \<and> (chunk_size_by_block_number cfg \<noteq> 0 \<longrightarrow>
            (parallelism cfg = 0 \<longrightarrow> only_rejects E cfg w ''parallelism must be > 0'')
            \<and> (parallelism cfg \<noteq> 0 \<longrightarrow>
                (rate_limit_per_second cfg = 0 \<longrightarrow> only_rejects E cfg w ''rate-limit-per-second must be > 0'')
                \<and> (rate_limit_per_second cfg \<noteq> 0 \<and> sums_fit cfg \<longrightarrow> backfill_start E cfg w \<noteq> None))))"
proof -
  have decides: "backfill_start E cfg w \<noteq> None" if ok: "config_ok cfg" "sums_fit cfg"
  proof -
    obtain ranges where "chunk_ranges (bf_overflow_checks E) (start_block cfg) (end_block cfg)
      (chunk_size_by_block_number cfg) = Some (Ok ranges)" by (rule chunk_ranges_run [OF ok])
    then show ?thesis by (cases "set_up E cfg") (auto simp: backfill_start_def)
  qed
  show ?thesis
    by (intro conjI impI rejected_config decides) (simp_all add: validate_config_def config_ok_def)
qed

theorem backfill_validates_witness:
  "only_rejects sample_bf_env (sample_bf_config\<lparr>parallelism := 0\<rparr>) memory_start ''parallelism must be > 0''
    \<and> only_rejects sample_bf_env (sample_bf_config\<lparr>start_block := 10, parallelism := 0\<rparr>) memory_start
        ''start-block must be <= end-block''"
  using backfill_validates [of "sample_bf_config\<lparr>parallelism := 0\<rparr>" sample_bf_env memory_start]
    backfill_validates [of "sample_bf_config\<lparr>start_block := 10, parallelism := 0\<rparr>" sample_bf_env memory_start]
  by (simp add: sample_bf_config_def)

text \<open>The two programs authenticate alike: where the frontfill WebSocket sends an \<open>Authorization\<close>
  header, the backfill client sends one header of the configured name with the same text, the
  word \<open>Bearer\<close> in the configured case.\<close>

lemma auth_agrees_with_frontfill:
  assumes "build_ws_auth key header_name scheme = Ok (Some auth)"
  shows "\<exists>t. build_auth_headers Ok Ok key header_name scheme = Ok [(header_name, t)]
    \<and> eq_ignore_ascii_case header_name ''authorization''
    \<and> (case auth of
         Auth_Raw raw \<Rightarrow> t = raw
       | Auth_Bearer token \<Rightarrow> t = scheme @ '' '' @ token \<and> eq_ignore_ascii_case scheme ''bearer'')"
  using assms by (auto simp: build_ws_auth_def build_auth_headers_def split: option.splits if_splits)

end
