(* ===== verification/Cli.thy ===== *)
theory Cli
  imports Backfill_Correct
begin

text \<open>
  Model of the two command lines, \<open>src/src/main.rs\<close> and \<open>src/src/bin/backfill.rs\<close>: the parsed arguments,
  their default values, and the configurations handed to the two runtimes. Parsing of the command
  line and of the environment is \<open>clap\<close> and \<open>dotenvy\<close>, a parameter here: the parsed arguments.
\<close>

section \<open>The frontfill program\<close>

datatype SinkType = Parquet | Kafka

definition RPC_URL :: string where
  "RPC_URL = ''wss://polygon-bor-rpc.publicnode.com''"

record Args =
  arg_flush_blocks :: u64
  arg_rpc_url :: string
  arg_frontfill_start_block :: "u64 option"
  arg_rpc_auth_key :: "string option"
  arg_rpc_auth_header :: string
  arg_rpc_auth_scheme :: string
  arg_output_dir :: string
  arg_sink :: SinkType
  arg_kafka_brokers :: "string option"
  arg_kafka_topic_prefix :: string
  arg_metrics_enabled :: bool
  arg_metrics_bind :: string
  arg_metrics_port :: u16

text \<open>The arguments when nothing is given.\<close>

definition default_args :: Args where
  "default_args = \<lparr>arg_flush_blocks = 1000, arg_rpc_url = RPC_URL, arg_frontfill_start_block = None,
     arg_rpc_auth_key = None, arg_rpc_auth_header = ''Authorization'', arg_rpc_auth_scheme = ''Bearer'',
     arg_output_dir = ''output'', arg_sink = Parquet, arg_kafka_brokers = None,
     arg_kafka_topic_prefix = ''polymarket'', arg_metrics_enabled = False, arg_metrics_bind = ''127.0.0.1'',
     arg_metrics_port = 9090\<rparr>"

definition sink_of_args :: "Args \<Rightarrow> SinkConfig rs" where
  "sink_of_args args = (case arg_sink args of
      Parquet \<Rightarrow> Ok (SinkParquet (arg_output_dir args))
    | Kafka \<Rightarrow>
        if arg_kafka_brokers args = None then Err ''kafka sink requires --kafka-brokers''
        else Ok (SinkKafka (arg_kafka_brokers args) (arg_kafka_topic_prefix args)))"

definition frontfill_config :: "Args \<Rightarrow> FrontfillConfig rs" where
  "frontfill_config args = bind_rs (sink_of_args args) (\<lambda>sink_config. Ok
     \<lparr>flush_blocks = arg_flush_blocks args, FrontfillConfig.start_block = arg_frontfill_start_block args,
      rpc_url = arg_rpc_url args, rpc_auth_key = arg_rpc_auth_key args,
      rpc_auth_header = arg_rpc_auth_header args, rpc_auth_scheme = arg_rpc_auth_scheme args,
      metrics_enabled = arg_metrics_enabled args, metrics_bind = arg_metrics_bind args,
      metrics_port = arg_metrics_port args, sink = sink_config\<rparr>)"

text \<open>\<open>main\<close> as far as the start of the event loop.\<close>

definition frontfill_main ::
  "('w, 'f, 'h, 'p, 'rec, 'r, 'addr, 'l) ff_env \<Rightarrow> Args \<Rightarrow> ('w, ('w, 'h, 'p) ff_state) io" where
  "frontfill_main E args = io_bind (io_rs (frontfill_config args)) (run_start E)"

section \<open>The backfill program\<close>

definition RPC_HTTP_URL :: string where
  "RPC_HTTP_URL = ''https://polygon-bor-rpc.publicnode.com''"

record Backfill_Args =
  barg_start_block :: u64
  barg_end_block :: u64
  barg_chunk_size_by_block_number :: u64
  barg_parallelism :: usize
  barg_rate_limit_per_second :: usize
  barg_rpc_http_url :: string
  barg_rpc_http_key :: "string option"
  barg_rpc_http_auth_header :: string
  barg_rpc_http_auth_scheme :: string
  barg_output_dir :: string

text \<open>The start and the end block have to be given.\<close>

definition default_backfill_args :: "u64 \<Rightarrow> u64 \<Rightarrow> Backfill_Args" where
  "default_backfill_args a b = \<lparr>barg_start_block = a, barg_end_block = b,
     barg_chunk_size_by_block_number = 1000, barg_parallelism = 2, barg_rate_limit_per_second = 15,
     barg_rpc_http_url = RPC_HTTP_URL, barg_rpc_http_key = None,
     barg_rpc_http_auth_header = ''Authorization'', barg_rpc_http_auth_scheme = ''Bearer'',
     barg_output_dir = ''output''\<rparr>"

definition backfill_config :: "Backfill_Args \<Rightarrow> BackfillConfig" where
  "backfill_config args =
     \<lparr>start_block = barg_start_block args, end_block = barg_end_block args,
      chunk_size_by_block_number = barg_chunk_size_by_block_number args,
      parallelism = barg_parallelism args, rate_limit_per_second = barg_rate_limit_per_second args,
      rpc_http_url = barg_rpc_http_url args, rpc_http_key = barg_rpc_http_key args,
      rpc_http_auth_header = barg_rpc_http_auth_header args,
      rpc_http_auth_scheme = barg_rpc_http_auth_scheme args, output_dir = barg_output_dir args\<rparr>"

section \<open>Properties\<close>

text \<open>The programs start: with its default arguments the frontfill program writes Parquet files
  without metrics or authentication and enters its event loop; the Kafka sink needs brokers, and gets
  past the command line with exactly the ones given; and the default arguments of the backfill pass its
  validation for every non-empty interval.\<close>

lemma command_lines_start:
  "(\<exists>st. frontfill_main E default_args w = (Ok st, w) \<and> metrics_runtime st = None
      \<and> storage st = ParquetSink (ParquetStorage_new ''output''))
    \<and> (\<exists>c. frontfill_config default_args = Ok c
      \<and> build_ws_connect (rpc_url c) (rpc_auth_key c) (rpc_auth_header c) (rpc_auth_scheme c)
          = Ok \<lparr>ws_url = RPC_URL, ws_auth = None\<rparr>)
    \<and> (arg_sink args = Kafka \<longrightarrow>
        (case arg_kafka_brokers args of
           None \<Rightarrow> frontfill_main E args w = (Err ''kafka sink requires --kafka-brokers'', w)
         | Some b \<Rightarrow> sink_of_args args = Ok (SinkKafka (Some b) (arg_kafka_topic_prefix args))))
    \<and> (validate_config (backfill_config (default_backfill_args a b)) = Ok () \<longleftrightarrow> a \<le> b)"
proof (intro conjI impI)
  show "\<exists>st. frontfill_main E default_args w = (Ok st, w) \<and> metrics_runtime st = None
      \<and> storage st = ParquetSink (ParquetStorage_new ''output'')"
    by (simp add: frontfill_main_def frontfill_config_def sink_of_args_def default_args_def io_bind_def
        run_start_def build_storage_def)
  show "\<exists>c. frontfill_config default_args = Ok c
      \<and> build_ws_connect (rpc_url c) (rpc_auth_key c) (rpc_auth_header c) (rpc_auth_scheme c)
          = Ok \<lparr>ws_url = RPC_URL, ws_auth = None\<rparr>"
    by (simp add: frontfill_config_def sink_of_args_def default_args_def build_ws_connect_def build_ws_auth_def)
  show "case arg_kafka_brokers args of
      None \<Rightarrow> frontfill_main E args w = (Err ''kafka sink requires --kafka-brokers'', w)
    | Some b \<Rightarrow> sink_of_args args = Ok (SinkKafka (Some b) (arg_kafka_topic_prefix args))"
    if "arg_sink args = Kafka"
    using that
    by (simp add: frontfill_main_def frontfill_config_def sink_of_args_def io_bind_def split: option.split)
  show "validate_config (backfill_config (default_backfill_args a b)) = Ok () \<longleftrightarrow> a \<le> b"
    by (simp add: validate_config_iff config_ok_def backfill_config_def default_backfill_args_def)
qed





end
