(* ===== verification/Event_Encoding.thy ===== *)
theory Event_Encoding
  imports Decode
begin

text \<open>
  Encoding an event as a log and decoding it again. The \<open>sol!\<close> macro of \<open>src/src/contracts.rs\<close> generates
  for each event a struct with an encoder, which the tests of \<open>src/src/decode.rs\<close> use to make their logs;
  the encoder is a parameter, with the laws the program relies on. Decoding inverts it, and loses nothing.
\<close>

section \<open>Events and their encoding\<close>

text \<open>A struct of one of the ten generated types.\<close>

datatype sol_event =
    Ev_ConditionPreparation ConditionPreparation
  | Ev_PositionSplit PositionSplit
  | Ev_PositionsMerge PositionsMerge
  | Ev_PayoutRedemption PayoutRedemption
  | Ev_OrderFilled OrderFilled
  | Ev_OrdersMatched OrdersMatched
  | Ev_OrderCancelled OrderCancelled
  | Ev_MarketPrepared MarketPrepared
  | Ev_QuestionPrepared QuestionPrepared
  | Ev_PositionsConverted PositionsConverted

fun sol_event_kind :: "sol_event \<Rightarrow> event_kind" where
  "sol_event_kind (Ev_ConditionPreparation s) = ConditionPreparation"
| "sol_event_kind (Ev_PositionSplit s) = PositionSplit"
| "sol_event_kind (Ev_PositionsMerge s) = PositionsMerge"
| "sol_event_kind (Ev_PayoutRedemption s) = PayoutRedemption"
| "sol_event_kind (Ev_OrderFilled s) = OrderFilled"
| "sol_event_kind (Ev_OrdersMatched s) = OrdersMatched"
| "sol_event_kind (Ev_OrderCancelled s) = OrderCancelled"
| "sol_event_kind (Ev_MarketPrepared s) = MarketPrepared"
| "sol_event_kind (Ev_QuestionPrepared s) = QuestionPrepared"
| "sol_event_kind (Ev_PositionsConverted s) = PositionsConverted"

text \<open>The fields of the struct, in declaration order.\<close>

fun sol_event_values :: "sol_event \<Rightarrow> sol_value list" where
  "sol_event_values (Ev_ConditionPreparation s) =
     [SB256 (ConditionPreparation.conditionId s), SAddress (ConditionPreparation.oracle s),
      SB256 (ConditionPreparation.questionId s), SU256 (ConditionPreparation.outcomeSlotCount s)]"
| "sol_event_values (Ev_PositionSplit s) =
     [SAddress (PositionSplit.collateralToken s), SAddress (PositionSplit.parentCollectionId s),
      SB256 (PositionSplit.conditionId s), SB256 (PositionSplit.partition s),
      SU256Array (PositionSplit.amounts s), SU256 (PositionSplit.amount s)]"
| "sol_event_values (Ev_PositionsMerge s) =
     [SAddress (PositionsMerge.collateralToken s), SAddress (PositionsMerge.parentCollectionId s),
      SB256 (PositionsMerge.conditionId s), SB256 (PositionsMerge.partition s),
      SU256Array (PositionsMerge.amounts s), SU256 (PositionsMerge.amount s)]"
| "sol_event_values (Ev_PayoutRedemption s) =
     [SAddress (PayoutRedemption.redeemer s), SAddress (PayoutRedemption.collateralToken s),
      SB256 (PayoutRedemption.parentCollectionId s), SB256 (PayoutRedemption.conditionId s),
      SU256Array (PayoutRedemption.indexSets s), SU256 (PayoutRedemption.amount s)]"
| "sol_event_values (Ev_OrderFilled s) =
     [SB256 (OrderFilled.orderHash s), SAddress (OrderFilled.maker s), SAddress (OrderFilled.taker s),
      SU256 (OrderFilled.makerFillAmount s), SU256 (OrderFilled.takerFillAmount s),
      SU256 (OrderFilled.makerFee s), SU256 (OrderFilled.takerFee s)]"
| "sol_event_values (Ev_OrdersMatched s) =
     [SB256 (OrdersMatched.takerOrderHash s), SB256 (OrdersMatched.makerOrderHash s)]"
| "sol_event_values (Ev_OrderCancelled s) =
     [SB256 (OrderCancelled.orderHash s)]"
| "sol_event_values (Ev_MarketPrepared s) =
     [SB256 (MarketPrepared.conditionId s), SAddress (MarketPrepared.creator s),
      SU256 (MarketPrepared.marketId s), SBytes (MarketPrepared.data s)]"
| "sol_event_values (Ev_QuestionPrepared s) =
     [SB256 (QuestionPrepared.questionId s), SB256 (QuestionPrepared.conditionId s),
      SAddress (QuestionPrepared.creator s), SBytes (QuestionPrepared.data s)]"
| "sol_event_values (Ev_PositionsConverted s) =
     [SB256 (PositionsConverted.conditionId s), SAddress (PositionsConverted.stakeholder s),
      SU256 (PositionsConverted.amount s), SU256 (PositionsConverted.fee s)]"

text \<open>The ABI decoder of the event reads this struct from a log.\<close>

fun abi_decodes :: "alloy \<Rightarrow> Log \<Rightarrow> sol_event \<Rightarrow> bool" where
  "abi_decodes A log (Ev_ConditionPreparation s) \<longleftrightarrow> abi_ConditionPreparation A log = Ok s"
| "abi_decodes A log (Ev_PositionSplit s) \<longleftrightarrow> abi_PositionSplit A log = Ok s"
| "abi_decodes A log (Ev_PositionsMerge s) \<longleftrightarrow> abi_PositionsMerge A log = Ok s"
| "abi_decodes A log (Ev_PayoutRedemption s) \<longleftrightarrow> abi_PayoutRedemption A log = Ok s"
| "abi_decodes A log (Ev_OrderFilled s) \<longleftrightarrow> abi_OrderFilled A log = Ok s"
| "abi_decodes A log (Ev_OrdersMatched s) \<longleftrightarrow> abi_OrdersMatched A log = Ok s"
| "abi_decodes A log (Ev_OrderCancelled s) \<longleftrightarrow> abi_OrderCancelled A log = Ok s"
| "abi_decodes A log (Ev_MarketPrepared s) \<longleftrightarrow> abi_MarketPrepared A log = Ok s"
| "abi_decodes A log (Ev_QuestionPrepared s) \<longleftrightarrow> abi_QuestionPrepared A log = Ok s"
| "abi_decodes A log (Ev_PositionsConverted s) \<longleftrightarrow> abi_PositionsConverted A log = Ok s"

text \<open>
  What the program relies on in the generated code: however the topics and the data of a log came about,
  if they are the encoding of an event then the first topic is the signature hash of the event and its ABI
  decoder reads the event back.
\<close>

definition encodes_ok :: "alloy \<Rightarrow> (sol_event \<Rightarrow> B256 list \<times> bytes) \<Rightarrow> bool" where
  "encodes_ok A encode_log_data \<longleftrightarrow>
     (\<forall>ev log. (topics log, log_data log) = encode_log_data ev \<longrightarrow>
        topic0 log = Some (SIGNATURE_HASH A (sol_event_kind ev)) \<and> abi_decodes A log ev)"

text \<open>
  What it relies on in \<open>serde_json\<close> and the serializers of \<open>alloy\<close>: a number, an address and a byte string
  become a JSON string and an array of numbers an array of JSON strings; values of one type that differ are
  serialized differently; and arrays of strings that differ are printed differently.
\<close>

fun json_shape_ok :: "sol_value \<Rightarrow> json \<Rightarrow> bool" where
  "json_shape_ok (SU256Array ws) j \<longleftrightarrow> (\<exists>ss. j = JArray (map JString ss))"
| "json_shape_ok v j \<longleftrightarrow> (\<exists>s. j = JString s)"

definition values_render :: "alloy \<Rightarrow> bool" where
  "values_render A \<longleftrightarrow>
     (\<forall>v. \<exists>j. to_value A v = Ok j \<and> json_shape_ok v j) \<and>
     (\<forall>v v'. value_type v = value_type v' \<longrightarrow> to_value A v = to_value A v' \<longrightarrow> v = v') \<and>
     inj (\<lambda>ss. json_display A (JArray (map JString ss)))"

section \<open>Decoding inverts encoding\<close>

lemma abi_values_encoded:
  "abi_decodes A log ev \<Longrightarrow> abi_values (sol_event_kind ev) A log = Ok (sol_event_values ev)"
  by (cases ev) simp_all

lemma decode_log_encoded:
  assumes "keccak_ok A" and "encodes_ok A encode" and "(topics log, log_data log) = encode ev"
  shows "decode_log A log = event_of A (event_name (sol_event_kind ev))
    (zip (column_names (sol_event_kind ev)) (sol_event_values ev))"
proof -
  from assms(2,3) have "topic0 log = Some (SIGNATURE_HASH A (sol_event_kind ev))" and dec: "abi_decodes A log ev"
    by (simp_all add: encodes_ok_def)
  from route_matching [OF assms(1) this(1)] abi_values_encoded [OF dec] show ?thesis
    by (simp add: decode_log_route decode_branch_abi_values)
qed

lemma sol_event_values_typed:
  "map value_type (sol_event_values ev) = map param_type (event_params (sol_event_kind ev))"
  by (cases ev) simp_all

lemma sol_event_values_length:
  "length (column_names (sol_event_kind ev)) = length (sol_event_values ev)"
  by (cases ev) simp_all

lemmas event_struct_equality =
  ConditionPreparation.equality PositionSplit.equality PositionsMerge.equality PayoutRedemption.equality
  OrderFilled.equality OrdersMatched.equality OrderCancelled.equality MarketPrepared.equality
  QuestionPrepared.equality PositionsConverted.equality

lemma sol_event_values_inject:
  assumes "sol_event_kind ev = sol_event_kind ev'" and "sol_event_values ev = sol_event_values ev'"
  shows "ev = ev'"
  using assms by (cases ev; cases ev') (simp_all add: event_struct_equality)

lemma value_to_string_total:
  assumes "values_render A"
  obtains s where "value_to_string A v = Ok s"
proof -
  from assms obtain j where "to_value A v = Ok j" unfolding values_render_def by blast
  with that show thesis by (simp add: value_to_string_def)
qed

lemma value_to_string_inject:
  assumes render: "values_render A" and type: "value_type v = value_type v'"
    and eq: "value_to_string A v = value_to_string A v'"
  shows "v = v'"
proof -
  from render obtain j j' where j: "to_value A v = Ok j" "json_shape_ok v j"
    and j': "to_value A v' = Ok j'" "json_shape_ok v' j'"
    unfolding values_render_def by blast
  have "j = j'"
  proof (cases v)
    case (SU256Array ws)
    with type obtain ws' where v': "v' = SU256Array ws'" by (cases v') simp_all
    with j(2) j'(2) SU256Array obtain ss ss' where s: "j = JArray (map JString ss)" "j' = JArray (map JString ss')"
      by auto
    have "inj (\<lambda>ss. json_display A (JArray (map JString ss)))" using render by (simp add: values_render_def)
    moreover have "json_display A j = json_display A j'"
      using eq j(1) j'(1) by (simp add: value_to_string_def s)
    ultimately show ?thesis using s by (auto dest: injD)
  qed (use type j j' eq in \<open>cases v'; auto simp: value_to_string_def\<close>)+
  with j(1) j'(1) have "to_value A v = to_value A v'" by simp
  with type render show ?thesis unfolding values_render_def by blast
qed

lemma rendered_values_inject:
  assumes render: "values_render A" and "list_all2 (\<lambda>v s. value_to_string A v = Ok s) vs ss"
    and "list_all2 (\<lambda>v s. value_to_string A v = Ok s) vs' ss"
    and "map value_type vs = map value_type vs'"
  shows "vs = vs'"
  using assms(2,3,4)
proof (induction vs arbitrary: vs' ss)
  case Nil
  then show ?case by simp
next
  case (Cons v vs)
  then obtain s rest where ss: "ss = s # rest" by (auto simp: list_all2_Cons1)
  with Cons.prems obtain v' us where vs': "vs' = v' # us" by (cases vs') auto
  from Cons.prems have "value_to_string A v = value_to_string A v'" "value_type v = value_type v'"
    by (simp_all add: ss vs')
  then have "v = v'" by (intro value_to_string_inject [OF render])
  moreover from Cons.prems have "vs = us" by (intro Cons.IH [of rest]) (simp_all add: ss vs')
  ultimately show ?case by (simp add: vs')
qed

text \<open>The event an encoded struct decodes to.\<close>

lemma encoded_columns:
  assumes "event_of A (event_name (sol_event_kind ev))
      (zip (column_names (sol_event_kind ev)) (sol_event_values ev)) = Ok (Some d)"
  shows "event_type d = event_name (sol_event_kind ev)"
    and "map fst (columns d) = column_names (sol_event_kind ev)"
    and "list_all2 (\<lambda>v s. value_to_string A v = Ok s) (sol_event_values ev) (map snd (columns d))"
proof -
  from assms obtain r: "event_type d = event_name (sol_event_kind ev)"
    "map fst (columns d) = column_names (sol_event_kind ev)"
    "render_columns A (zip (column_names (sol_event_kind ev)) (sol_event_values ev)) = Ok (columns d)"
    by (auto simp: sol_event_values_length elim!: event_of_Ok_elim)
  then show "event_type d = event_name (sol_event_kind ev)"
    and "map fst (columns d) = column_names (sol_event_kind ev)" by simp_all
  from render_columns_values [OF r(3)]
  show "list_all2 (\<lambda>v s. value_to_string A v = Ok s) (sol_event_values ev) (map snd (columns d))"
    by (simp add: sol_event_values_length)
qed

lemma encoded_decodes:
  assumes "keccak_ok A" and "encodes_ok A encode" and "values_render A"
    and "(topics log, log_data log) = encode ev"
  obtains d where "decode_log A log = Ok (Some d)"
proof -
  have "\<exists>y. (case c of (name, v) \<Rightarrow> map_rs_value (Pair name) (value_to_string A v)) = Ok y" for c
    by (cases c) (metis map_rs_value_Ok_iff old.prod.case value_to_string_total [OF assms(3)])
  then obtain cs where
    "render_columns A (zip (column_names (sol_event_kind ev)) (sol_event_values ev)) = Ok cs"
    unfolding render_columns_def using traverse_rs_Ok_total by metis
  with that show thesis by (simp add: decode_log_encoded [OF assms(1,2,4)] event_of_def)
qed

section \<open>A concrete instance of the encoder\<close>

text \<open>
  An encoder and ABI decoders for all ten events, which keep the words of an event in the topics and its
  bytes in the data, and a serializer: numbers are printed in decimal, and a list of strings with the length
  of each before it. It only serves to show that the hypotheses of the properties can hold.
\<close>

fun show_strings :: "string list \<Rightarrow> string" where
  "show_strings [] = []"
| "show_strings (s # ss) = show_nat (length s) @ CHR '':'' # s @ show_strings ss"

definition show_words :: "'l::len word list \<Rightarrow> string list" where
  "show_words ws = map (show_nat \<circ> unat) ws"

fun full_json :: "sol_value \<Rightarrow> json" where
  "full_json (SB256 w) = JString (show_nat (unat w))"
| "full_json (SAddress w) = JString (show_nat (unat w))"
| "full_json (SU256 w) = JString (show_nat (unat w))"
| "full_json (SU256Array ws) = JArray (map JString (show_words ws))"
| "full_json (SBytes bs) = JString (show_strings (show_words bs))"

fun json_text :: "json \<Rightarrow> string" where
  "json_text (JString s) = s"
| "json_text j = []"

fun full_display :: "json \<Rightarrow> string" where
  "full_display (JArray js) = show_strings (map json_text js)"
| "full_display j = []"

definition sample_signature :: "event_kind \<Rightarrow> B256" where
  "sample_signature e = SIGNATURE_HASH sample_alloy e"

fun sample_encoding :: "sol_event \<Rightarrow> B256 list \<times> bytes" where
  "sample_encoding (Ev_ConditionPreparation s) =
     ([sample_signature ConditionPreparation, ConditionPreparation.conditionId s,
       ucast (ConditionPreparation.oracle s), ConditionPreparation.questionId s,
       ConditionPreparation.outcomeSlotCount s],
      [])"
| "sample_encoding (Ev_PositionSplit s) =
     ([sample_signature PositionSplit, ucast (PositionSplit.collateralToken s),
       ucast (PositionSplit.parentCollectionId s), PositionSplit.conditionId s,
       PositionSplit.partition s, PositionSplit.amount s]
       @ PositionSplit.amounts s,
      [])"
| "sample_encoding (Ev_PositionsMerge s) =
     ([sample_signature PositionsMerge, ucast (PositionsMerge.collateralToken s),
       ucast (PositionsMerge.parentCollectionId s), PositionsMerge.conditionId s,
       PositionsMerge.partition s, PositionsMerge.amount s]
       @ PositionsMerge.amounts s,
      [])"
| "sample_encoding (Ev_PayoutRedemption s) =
     ([sample_signature PayoutRedemption, ucast (PayoutRedemption.redeemer s),
       ucast (PayoutRedemption.collateralToken s), PayoutRedemption.parentCollectionId s,
       PayoutRedemption.conditionId s, PayoutRedemption.amount s]
       @ PayoutRedemption.indexSets s,
      [])"
| "sample_encoding (Ev_OrderFilled s) =
     ([sample_signature OrderFilled, OrderFilled.orderHash s, ucast (OrderFilled.maker s),
       ucast (OrderFilled.taker s), OrderFilled.makerFillAmount s, OrderFilled.takerFillAmount s,
       OrderFilled.makerFee s, OrderFilled.takerFee s],
      [])"
| "sample_encoding (Ev_OrdersMatched s) =
     ([sample_signature OrdersMatched, OrdersMatched.takerOrderHash s, OrdersMatched.makerOrderHash s],
      [])"
| "sample_encoding (Ev_OrderCancelled s) =
     ([sample_signature OrderCancelled, OrderCancelled.orderHash s],
      [])"
| "sample_encoding (Ev_MarketPrepared s) =
     ([sample_signature MarketPrepared, MarketPrepared.conditionId s, ucast (MarketPrepared.creator s),
       MarketPrepared.marketId s],
      MarketPrepared.data s)"
| "sample_encoding (Ev_QuestionPrepared s) =
     ([sample_signature QuestionPrepared, QuestionPrepared.questionId s,
       QuestionPrepared.conditionId s, ucast (QuestionPrepared.creator s)],
      QuestionPrepared.data s)"
| "sample_encoding (Ev_PositionsConverted s) =
     ([sample_signature PositionsConverted, PositionsConverted.conditionId s,
       ucast (PositionsConverted.stakeholder s), PositionsConverted.amount s, PositionsConverted.fee s],
      [])"

definition full_alloy :: alloy where
  "full_alloy = sample_alloy\<lparr>
     to_value := (\<lambda>v. Ok (full_json v)),
     json_display := full_display,
     abi_ConditionPreparation := (\<lambda>log. case topics log of
         _ # a # b # c # d # [] \<Rightarrow> Ok \<lparr>
           ConditionPreparation.conditionId = a, ConditionPreparation.oracle = ucast b,
           ConditionPreparation.questionId = c, ConditionPreparation.outcomeSlotCount = d\<rparr>
       | _ \<Rightarrow> Err ''ABI decoding failed''),
     abi_PositionSplit := (\<lambda>log. case topics log of
         _ # a # b # c # d # e # us \<Rightarrow> Ok \<lparr>
           PositionSplit.collateralToken = ucast a, PositionSplit.parentCollectionId = ucast b,
           PositionSplit.conditionId = c, PositionSplit.partition = d, PositionSplit.amounts = us,
           PositionSplit.amount = e\<rparr>
       | _ \<Rightarrow> Err ''ABI decoding failed''),
     abi_PositionsMerge := (\<lambda>log. case topics log of
         _ # a # b # c # d # e # us \<Rightarrow> Ok \<lparr>
           PositionsMerge.collateralToken = ucast a, PositionsMerge.parentCollectionId = ucast b,
           PositionsMerge.conditionId = c, PositionsMerge.partition = d, PositionsMerge.amounts = us,
           PositionsMerge.amount = e\<rparr>
       | _ \<Rightarrow> Err ''ABI decoding failed''),
     abi_PayoutRedemption := (\<lambda>log. case topics log of
         _ # a # b # c # d # e # us \<Rightarrow> Ok \<lparr>
           PayoutRedemption.redeemer = ucast a, PayoutRedemption.collateralToken = ucast b,
           PayoutRedemption.parentCollectionId = c, PayoutRedemption.conditionId = d,
           PayoutRedemption.indexSets = us, PayoutRedemption.amount = e\<rparr>
       | _ \<Rightarrow> Err ''ABI decoding failed''),
     abi_OrderFilled := (\<lambda>log. case topics log of
         _ # a # b # c # d # e # f # g # [] \<Rightarrow> Ok \<lparr>
           OrderFilled.orderHash = a, OrderFilled.maker = ucast b, OrderFilled.taker = ucast c,
           OrderFilled.makerFillAmount = d, OrderFilled.takerFillAmount = e, OrderFilled.makerFee = f,
           OrderFilled.takerFee = g\<rparr>
       | _ \<Rightarrow> Err ''ABI decoding failed''),
     abi_OrdersMatched := (\<lambda>log. case topics log of
         _ # a # b # [] \<Rightarrow> Ok \<lparr>
           OrdersMatched.takerOrderHash = a, OrdersMatched.makerOrderHash = b\<rparr>
       | _ \<Rightarrow> Err ''ABI decoding failed''),
     abi_OrderCancelled := (\<lambda>log. case topics log of
         _ # a # [] \<Rightarrow> Ok \<lparr>
           OrderCancelled.orderHash = a\<rparr>
       | _ \<Rightarrow> Err ''ABI decoding failed''),
     abi_MarketPrepared := (\<lambda>log. case topics log of
         _ # a # b # c # [] \<Rightarrow> Ok \<lparr>
           MarketPrepared.conditionId = a, MarketPrepared.creator = ucast b,
           MarketPrepared.marketId = c, MarketPrepared.data = log_data log\<rparr>
       | _ \<Rightarrow> Err ''ABI decoding failed''),
     abi_QuestionPrepared := (\<lambda>log. case topics log of
         _ # a # b # c # [] \<Rightarrow> Ok \<lparr>
           QuestionPrepared.questionId = a, QuestionPrepared.conditionId = b,
           QuestionPrepared.creator = ucast c, QuestionPrepared.data = log_data log\<rparr>
       | _ \<Rightarrow> Err ''ABI decoding failed''),
     abi_PositionsConverted := (\<lambda>log. case topics log of
         _ # a # b # c # d # [] \<Rightarrow> Ok \<lparr>
           PositionsConverted.conditionId = a, PositionsConverted.stakeholder = ucast b,
           PositionsConverted.amount = c, PositionsConverted.fee = d\<rparr>
       | _ \<Rightarrow> Err ''ABI decoding failed'')\<rparr>"

lemma show_strings_inject: "show_strings ss = show_strings ss' \<Longrightarrow> ss = ss'"
proof (induction ss arbitrary: ss')
  case Nil
  then show ?case by (cases ss') simp_all
next
  case (Cons s ss)
  then obtain s' us where ss': "ss' = s' # us" by (cases ss') simp_all
  have colon: "CHR '':'' \<notin> set (show_nat n)" for n by (rule show_nat_no_char) (simp add: is_digit_def)
  note eq = Cons.prems [unfolded ss' show_strings.simps]
  from split_at_separator [OF colon colon eq]
  have "length s = length s'" and "s @ show_strings ss = s' @ show_strings us" by simp_all
  then have "s = s'" and "show_strings ss = show_strings us" by simp_all
  with Cons.IH show ?case by (simp add: ss')
qed

lemma show_words_inject: "show_words ws = show_words ws' \<Longrightarrow> ws = ws'"
  by (auto simp: show_words_def inj_on_def word_unat_eq_iff intro: map_injective)

lemma full_json_inject: "value_type v = value_type v' \<Longrightarrow> full_json v = full_json v' \<Longrightarrow> v = v'"
  by (cases v; cases v')
    (auto simp: word_unat_eq_iff inj_map_eq_map inj_def dest!: show_strings_inject show_words_inject)

lemma values_render_full: "values_render full_alloy"
  unfolding values_render_def
proof (intro conjI allI impI)
  show "\<exists>j. to_value full_alloy v = Ok j \<and> json_shape_ok v j" for v
    by (cases v) (auto simp: full_alloy_def)
  show "v = v'" if "value_type v = value_type v'" "to_value full_alloy v = to_value full_alloy v'" for v v'
    using that by (simp add: full_alloy_def full_json_inject)
  show "inj (\<lambda>ss. json_display full_alloy (JArray (map JString ss)))"
    by (rule injI) (simp add: full_alloy_def comp_def show_strings_inject)
qed

lemma ucast_address [simp]: "ucast (ucast a :: B256) = (a :: Address)"
  by (rule ucast_up_ucast_id) (simp add: is_up)

lemma encodes_ok_full: "encodes_ok full_alloy sample_encoding"
proof -
  have "topic0 log = Some (SIGNATURE_HASH full_alloy (sol_event_kind ev)) \<and> abi_decodes full_alloy log ev"
    if "(topics log, log_data log) = sample_encoding ev" for ev log
    using that
    by (cases ev) (simp_all add: topic0_def SIGNATURE_HASH_def sample_signature_def full_alloy_def)
  then show ?thesis unfolding encodes_ok_def by blast
qed

lemma keccak_ok_full: "keccak_ok full_alloy"
  using keccak_ok_sample by (simp add: keccak_ok_def full_alloy_def)

section \<open>Properties\<close>

text \<open>C6. Decoding inverts encoding and loses nothing: the log of an encoded event of any of the ten
  types decodes to an event of its type, with a column for each of its fields, and no other event encodes
  to a log that decodes to the same columns.\<close>

theorem decode_log_inverts_encoding:
  assumes "keccak_ok A" and "encodes_ok A encode" and "values_render A"
    and "(topics log, log_data log) = encode ev"
  shows "\<exists>d. decode_log A log = Ok (Some d) \<and> event_type d = event_name (sol_event_kind ev)
      \<and> map fst (columns d) = map (snake_case \<circ> param_name) (event_params (sol_event_kind ev))
      \<and> list_all2 (\<lambda>v s. value_to_string A v = Ok s) (sol_event_values ev) (map snd (columns d))
      \<and> (\<forall>ev' log'. (topics log', log_data log') = encode ev' \<longrightarrow>
           decode_log A log' = Ok (Some d) \<longrightarrow> ev' = ev)"
proof -
  obtain d where d: "decode_log A log = Ok (Some d)" by (rule encoded_decodes [OF assms])
  note cols = encoded_columns [OF d [unfolded decode_log_encoded [OF assms(1,2,4)]]]
  have "ev' = ev" if "(topics log', log_data log') = encode ev'" "decode_log A log' = Ok (Some d)" for ev' log'
  proof -
    note cols' = encoded_columns [OF that(2) [unfolded decode_log_encoded [OF assms(1,2) that(1)]]]
    have kind: "sol_event_kind ev' = sol_event_kind ev"
      using cols(1) cols'(1) by (simp add: inj_event_name)
    then have "sol_event_values ev' = sol_event_values ev"
      by (intro rendered_values_inject [OF assms(3) cols'(3) cols(3)]) (simp add: sol_event_values_typed)
    with kind show ?thesis by (rule sol_event_values_inject)
  qed
  with d cols show ?thesis by (auto simp: column_names_snake_case)
qed

definition sample_event :: sol_event where
  "sample_event = Ev_OrdersMatched \<lparr>takerOrderHash = 3, makerOrderHash = 4\<rparr>"

theorem decode_log_inverts_encoding_witness:
  "\<exists>d. decode_log full_alloy (sample_log OrdersMatched [3, 4] 9 0) = Ok (Some d)
     \<and> event_type d = ''OrdersMatched'' \<and> map fst (columns d) = [''taker_order_hash'', ''maker_order_hash'']"
proof -
  have "(topics (sample_log OrdersMatched [3, 4] 9 0), log_data (sample_log OrdersMatched [3, 4] 9 0))
      = sample_encoding sample_event"
    by (simp add: sample_log_def sample_event_def sample_signature_def)
  moreover have "map (snake_case \<circ> param_name) (event_params OrdersMatched)
      = [''taker_order_hash'', ''maker_order_hash'']"
    by (simp only: column_names_snake_case [symmetric] column_names.simps)
  ultimately show ?thesis
    using decode_log_inverts_encoding [OF keccak_ok_full encodes_ok_full values_render_full]
    by (metis event_name.simps(6) sample_event_def sol_event_kind.simps(6))
qed

end
