(* ===== verification/Unit_Tests.thy ===== *)
theory Unit_Tests
  imports Event_Encoding Cli
begin

text \<open>
  The tests of the crate (the \<open>tests\<close> modules of the files under \<open>src/src/\<close>) on the model. Each is an
  executable predicate under the name it has in the source, so that the expectations the authors wrote down are
  checked against the definitions the other theories translate. What a test takes from a library (an encoder,
  a parser, a registry, a clock) is an argument; a temporary directory is the in-memory file system. Left out
  are the tests of \<open>clap\<close>'s parser, of \<open>Url\<close>, of the Prometheus text format, and of \<open>serde_json\<close>.
\<close>

section \<open>Assertions\<close>

text \<open>\<open>expect\<close>, \<open>expect_err\<close> and \<open>str::contains\<close>\<close>

fun expect :: "'a rs \<Rightarrow> ('a \<Rightarrow> bool) \<Rightarrow> bool" where
  "expect (Ok a) P = P a"
| "expect (Err e) P = False"
| "expect Panic P = False"

fun expect_err :: "'a rs \<Rightarrow> (anyhow \<Rightarrow> bool) \<Rightarrow> bool" where
  "expect_err (Ok a) P = False"
| "expect_err (Err e) P = P e"
| "expect_err Panic P = False"

fun contains :: "string \<Rightarrow> string \<Rightarrow> bool" where
  "contains [] t = (t = [])"
| "contains (c # s) t = (take (length t) (c # s) = t \<or> contains s t)"

section \<open>The tests of \<open>contracts.rs\<close> and \<open>decode.rs\<close>\<close>

definition contract_addresses_returns_expected_constants_in_order :: "(string \<Rightarrow> Address rs) \<Rightarrow> bool" where
  "contract_addresses_returns_expected_constants_in_order address_from_str =
     expect (contract_addresses address_from_str) (\<lambda>addresses.
       length addresses = 3
       \<and> expect (address_from_str CTF_ADDRESS) (\<lambda>a. addresses ! 0 = a)
       \<and> expect (address_from_str CTF_EXCHANGE_ADDRESS) (\<lambda>a. addresses ! 1 = a)
       \<and> expect (address_from_str NEG_RISK_ADAPTER_ADDRESS) (\<lambda>a. addresses ! 2 = a))"

type_synonym encoder = "sol_event \<Rightarrow> B256 list \<times> bytes"

definition test_log :: "B256 list \<Rightarrow> Log" where
  "test_log ts = \<lparr>topics = ts, log_data = [], block_number = None, transaction_hash = None, log_index = None\<rparr>"

definition test_event_log :: "B256 list \<times> bytes \<Rightarrow> Log" where
  "test_event_log encoded = \<lparr>topics = fst encoded, log_data = snd encoded, block_number = None,
     transaction_hash = None, log_index = None\<rparr>"

definition assert_decode_event :: "alloy \<Rightarrow> Log \<Rightarrow> string \<Rightarrow> string list \<Rightarrow> bool" where
  "assert_decode_event A lg expected_event_type expected_columns =
     expect (decode_log A lg) (\<lambda>decoded. case decoded of
         None \<Rightarrow> False
       | Some d \<Rightarrow> event_type d = expected_event_type \<and> map fst (columns d) = expected_columns)"

definition topic0_returns_first_topic :: bool where
  "topic0_returns_first_topic \<longleftrightarrow> topic0 (test_log [1, 2]) = Some 1"

definition topic0_returns_none_for_empty_topics :: bool where
  "topic0_returns_none_for_empty_topics \<longleftrightarrow> topic0 (test_log []) = None"

text \<open>A string serializes to itself.\<close>

definition value_to_string_returns_raw_string_for_string_values :: "alloy \<Rightarrow> sol_value \<Rightarrow> bool" where
  "value_to_string_returns_raw_string_for_string_values A v =
     expect (value_to_string (A\<lparr>to_value := (\<lambda>_. Ok (JString ''hello''))\<rparr>) v) (\<lambda>actual. actual = ''hello'')"

text \<open>A type whose serialization always fails takes the place of the serializer.\<close>

definition always_fail_serialize :: "sol_value \<Rightarrow> json rs" where
  "always_fail_serialize v = Err ''forced serialization failure''"

definition value_to_string_propagates_serialization_errors :: "alloy \<Rightarrow> sol_value \<Rightarrow> bool" where
  "value_to_string_propagates_serialization_errors A v =
     expect_err (value_to_string (A\<lparr>to_value := always_fail_serialize\<rparr>) v)
       (\<lambda>e. contains e ''forced serialization failure'')"

definition decode_log_returns_none_for_missing_topic0 :: "alloy \<Rightarrow> bool" where
  "decode_log_returns_none_for_missing_topic0 A = expect (decode_log A (test_log [])) (\<lambda>d. d = None)"

definition decode_log_returns_none_for_unknown_topic :: "alloy \<Rightarrow> bool" where
  "decode_log_returns_none_for_unknown_topic A = expect (decode_log A (test_log [0xFF])) (\<lambda>d. d = None)"

definition decode_log_decodes_condition_preparation :: "alloy \<Rightarrow> encoder \<Rightarrow> bool" where
  "decode_log_decodes_condition_preparation A encode_log_data =
     assert_decode_event A
       (test_event_log (encode_log_data (Ev_ConditionPreparation \<lparr>
          ConditionPreparation.conditionId = 1, ConditionPreparation.oracle = 2,
          ConditionPreparation.questionId = 3, ConditionPreparation.outcomeSlotCount = 2\<rparr>)))
       ''ConditionPreparation''
       [''condition_id'', ''oracle'', ''question_id'', ''outcome_slot_count'']"

definition decode_log_decodes_position_split :: "alloy \<Rightarrow> encoder \<Rightarrow> bool" where
  "decode_log_decodes_position_split A encode_log_data =
     assert_decode_event A
       (test_event_log (encode_log_data (Ev_PositionSplit \<lparr>
          PositionSplit.collateralToken = 1, PositionSplit.parentCollectionId = 2,
          PositionSplit.conditionId = 3, PositionSplit.partition = 4, PositionSplit.amounts = [1, 2],
          PositionSplit.amount = 3\<rparr>)))
       ''PositionSplit''
       [''collateral_token'', ''parent_collection_id'', ''condition_id'', ''partition'', ''amounts'',
        ''amount'']"

definition decode_log_decodes_positions_merge :: "alloy \<Rightarrow> encoder \<Rightarrow> bool" where
  "decode_log_decodes_positions_merge A encode_log_data =
     assert_decode_event A
       (test_event_log (encode_log_data (Ev_PositionsMerge \<lparr>
          PositionsMerge.collateralToken = 1, PositionsMerge.parentCollectionId = 2,
          PositionsMerge.conditionId = 3, PositionsMerge.partition = 4,
          PositionsMerge.amounts = [1, 2], PositionsMerge.amount = 3\<rparr>)))
       ''PositionsMerge''
       [''collateral_token'', ''parent_collection_id'', ''condition_id'', ''partition'', ''amounts'',
        ''amount'']"

definition decode_log_decodes_payout_redemption :: "alloy \<Rightarrow> encoder \<Rightarrow> bool" where
  "decode_log_decodes_payout_redemption A encode_log_data =
     assert_decode_event A
       (test_event_log (encode_log_data (Ev_PayoutRedemption \<lparr>
          PayoutRedemption.redeemer = 1, PayoutRedemption.collateralToken = 2,
          PayoutRedemption.parentCollectionId = 3, PayoutRedemption.conditionId = 4,
          PayoutRedemption.indexSets = [5], PayoutRedemption.amount = 6\<rparr>)))
       ''PayoutRedemption''
       [''redeemer'', ''collateral_token'', ''parent_collection_id'', ''condition_id'', ''index_sets'',
        ''amount'']"

definition decode_log_decodes_order_filled :: "alloy \<Rightarrow> encoder \<Rightarrow> bool" where
  "decode_log_decodes_order_filled A encode_log_data =
     assert_decode_event A
       (test_event_log (encode_log_data (Ev_OrderFilled \<lparr>
          OrderFilled.orderHash = 1, OrderFilled.maker = 2, OrderFilled.taker = 3,
          OrderFilled.makerFillAmount = 4, OrderFilled.takerFillAmount = 5, OrderFilled.makerFee = 6,
          OrderFilled.takerFee = 7\<rparr>)))
       ''OrderFilled''
       [''order_hash'', ''maker'', ''taker'', ''maker_fill_amount'', ''taker_fill_amount'',
        ''maker_fee'', ''taker_fee'']"

definition decode_log_decodes_orders_matched :: "alloy \<Rightarrow> encoder \<Rightarrow> bool" where
  "decode_log_decodes_orders_matched A encode_log_data =
     assert_decode_event A
       (test_event_log (encode_log_data (Ev_OrdersMatched \<lparr>
          OrdersMatched.takerOrderHash = 1, OrdersMatched.makerOrderHash = 2\<rparr>)))
       ''OrdersMatched''
       [''taker_order_hash'', ''maker_order_hash'']"

definition decode_log_decodes_order_cancelled :: "alloy \<Rightarrow> encoder \<Rightarrow> bool" where
  "decode_log_decodes_order_cancelled A encode_log_data =
     assert_decode_event A
       (test_event_log (encode_log_data (Ev_OrderCancelled \<lparr>
          OrderCancelled.orderHash = 1\<rparr>)))
       ''OrderCancelled''
       [''order_hash'']"

definition decode_log_decodes_market_prepared :: "alloy \<Rightarrow> encoder \<Rightarrow> bool" where
  "decode_log_decodes_market_prepared A encode_log_data =
     assert_decode_event A
       (test_event_log (encode_log_data (Ev_MarketPrepared \<lparr>
          MarketPrepared.conditionId = 1, MarketPrepared.creator = 2, MarketPrepared.marketId = 3,
          MarketPrepared.data = [1, 2, 3]\<rparr>)))
       ''MarketPrepared''
       [''condition_id'', ''creator'', ''market_id'', ''data'']"

definition decode_log_decodes_question_prepared :: "alloy \<Rightarrow> encoder \<Rightarrow> bool" where
  "decode_log_decodes_question_prepared A encode_log_data =
     assert_decode_event A
       (test_event_log (encode_log_data (Ev_QuestionPrepared \<lparr>
          QuestionPrepared.questionId = 1, QuestionPrepared.conditionId = 2,
          QuestionPrepared.creator = 3, QuestionPrepared.data = [1, 2]\<rparr>)))
       ''QuestionPrepared''
       [''question_id'', ''condition_id'', ''creator'', ''data'']"

definition decode_log_decodes_positions_converted :: "alloy \<Rightarrow> encoder \<Rightarrow> bool" where
  "decode_log_decodes_positions_converted A encode_log_data =
     assert_decode_event A
       (test_event_log (encode_log_data (Ev_PositionsConverted \<lparr>
          PositionsConverted.conditionId = 1, PositionsConverted.stakeholder = 2,
          PositionsConverted.amount = 3, PositionsConverted.fee = 4\<rparr>)))
       ''PositionsConverted''
       [''condition_id'', ''stakeholder'', ''amount'', ''fee'']"

section \<open>The tests of \<open>backfill.rs\<close>\<close>

definition valid_config :: BackfillConfig where
  "valid_config = \<lparr>start_block = 1, end_block = 2, chunk_size_by_block_number = 1, parallelism = 1,
     rate_limit_per_second = 1, rpc_http_url = ''https://example.com'', rpc_http_key = None,
     rpc_http_auth_header = ''Authorization'', rpc_http_auth_scheme = ''Bearer'', output_dir = ''output''\<rparr>"

text \<open>The crate \<open>http\<close>: header names are case insensitive, a value is kept as it is.\<close>

type_synonym header_name_parser = "string \<Rightarrow> string rs"
type_synonym header_value_parser = "string \<Rightarrow> string rs"

definition build_auth_headers_uses_default_bearer_authorization ::
  "header_name_parser \<Rightarrow> header_value_parser \<Rightarrow> bool" where
  "build_auth_headers_uses_default_bearer_authorization hn hv =
     expect (build_auth_headers hn hv (Some ''abc'') ''Authorization'' ''Bearer'')
       (\<lambda>headers. map_of headers ''authorization'' = Some ''Bearer abc'')"

definition build_auth_headers_supports_custom_header_and_empty_scheme ::
  "header_name_parser \<Rightarrow> header_value_parser \<Rightarrow> bool" where
  "build_auth_headers_supports_custom_header_and_empty_scheme hn hv =
     expect (build_auth_headers hn hv (Some ''abc'') ''x-api-key'' [])
       (\<lambda>headers. map_of headers ''x-api-key'' = Some ''abc'')"

definition build_auth_headers_is_empty_without_key ::
  "header_name_parser \<Rightarrow> header_value_parser \<Rightarrow> bool" where
  "build_auth_headers_is_empty_without_key hn hv =
     expect (build_auth_headers hn hv None ''Authorization'' ''Bearer'') (\<lambda>headers. headers = [])"

definition build_auth_headers_returns_error_for_invalid_header_name ::
  "header_name_parser \<Rightarrow> header_value_parser \<Rightarrow> bool" where
  "build_auth_headers_returns_error_for_invalid_header_name hn hv =
     expect_err (build_auth_headers hn hv (Some ''abc'') ''bad header'' ''Bearer'')
       (\<lambda>e. contains e ''invalid HTTP header name'')"

definition build_auth_headers_returns_error_for_invalid_header_value ::
  "header_name_parser \<Rightarrow> header_value_parser \<Rightarrow> bool" where
  "build_auth_headers_returns_error_for_invalid_header_value hn hv =
     expect_err (build_auth_headers hn hv (Some (''abc'' @ [CHR 0x0A] @ ''xyz'')) ''Authorization'' ''Bearer'')
       (\<lambda>e. contains e ''failed to parse header value'')"

definition chunk_ranges_splits_evenly :: "bool \<Rightarrow> bool" where
  "chunk_ranges_splits_evenly checks \<longleftrightarrow>
     chunk_ranges checks 100 109 5 = Some (Ok [(100, 104), (105, 109)])"

definition chunk_ranges_adds_remainder_chunk :: "bool \<Rightarrow> bool" where
  "chunk_ranges_adds_remainder_chunk checks \<longleftrightarrow>
     chunk_ranges checks 100 111 5 = Some (Ok [(100, 104), (105, 109), (110, 111)])"

definition chunk_ranges_handles_single_block :: "bool \<Rightarrow> bool" where
  "chunk_ranges_handles_single_block checks \<longleftrightarrow> chunk_ranges checks 42 42 10 = Some (Ok [(42, 42)])"

text \<open>A run that does not get past its set-up returns its error.\<close>

definition rejects ::
  "('w, 'f, 'h, 'u, 'n, 'v) bf_env \<Rightarrow> BackfillConfig \<Rightarrow> 'w \<Rightarrow> anyhow \<Rightarrow> bool" where
  "rejects E cfg w e \<longleftrightarrow> (case backfill_start E cfg w of Some r \<Rightarrow> expect_err r (\<lambda>e'. e' = e) | None \<Rightarrow> False)"

definition run_returns_error_when_start_block_exceeds_end_block ::
  "('w, 'f, 'h, 'u, 'n, 'v) bf_env \<Rightarrow> 'w \<Rightarrow> bool" where
  "run_returns_error_when_start_block_exceeds_end_block E w =
     rejects E (valid_config\<lparr>start_block := 10, end_block := 9\<rparr>) w ''start-block must be <= end-block''"

definition run_returns_error_when_chunk_size_is_zero ::
  "('w, 'f, 'h, 'u, 'n, 'v) bf_env \<Rightarrow> 'w \<Rightarrow> bool" where
  "run_returns_error_when_chunk_size_is_zero E w =
     rejects E (valid_config\<lparr>chunk_size_by_block_number := 0\<rparr>) w ''chunk-size-by-block-number must be > 0''"

definition run_returns_error_when_parallelism_is_zero ::
  "('w, 'f, 'h, 'u, 'n, 'v) bf_env \<Rightarrow> 'w \<Rightarrow> bool" where
  "run_returns_error_when_parallelism_is_zero E w =
     rejects E (valid_config\<lparr>parallelism := 0\<rparr>) w ''parallelism must be > 0''"

definition run_returns_error_when_rate_limit_is_zero ::
  "('w, 'f, 'h, 'u, 'n, 'v) bf_env \<Rightarrow> 'w \<Rightarrow> bool" where
  "run_returns_error_when_rate_limit_is_zero E w =
     rejects E (valid_config\<lparr>rate_limit_per_second := 0\<rparr>) w ''rate-limit-per-second must be > 0''"

definition write_parquet_file_creates_output_file :: bool where
  "write_parquet_file_creates_output_file =
     (case write_parquet_file memory_api ''tmp'' ''OrderFilled'' [''order_hash'', ''maker'']
         [\<lparr>row_block = 100, row_tx_hash = ''0xtx1'', row_log_index = 0, row_values = [''0xorder1'', ''0xmaker1'']\<rparr>,
          \<lparr>row_block = 101, row_tx_hash = ''0xtx2'', row_log_index = 1, row_values = [''0xorder2'', ''0xmaker2'']\<rparr>]
         100 199 memory_start of
       (r, w) \<Rightarrow> expect r (\<lambda>_. path_join (path_join ''tmp'' ''OrderFilled'') ''100-199.parquet'' \<in> set (mem_paths w)))"

text \<open>The output path of this test is a file of the world \<open>w\<close>, so that no directory can be made below it.\<close>

definition write_parquet_file_errors_when_output_path_is_not_directory ::
  "('w, 'f, 'h) parquet_api \<Rightarrow> 'w \<Rightarrow> bool" where
  "write_parquet_file_errors_when_output_path_is_not_directory P w =
     expect_err (fst (write_parquet_file P ''tmp/not_a_directory'' ''OrderFilled'' [''order_hash'']
         [\<lparr>row_block = 1, row_tx_hash = ''0xtx'', row_log_index = 0, row_values = [''0xorder'']\<rparr>]
         1 1 w))
       (\<lambda>e. contains e ''Not a directory'')"

section \<open>The tests of \<open>frontfill.rs\<close>\<close>

definition test_config :: "SinkConfig \<Rightarrow> FrontfillConfig" where
  "test_config sink_config = \<lparr>flush_blocks = 10, start_block = None, rpc_url = ''wss://example.invalid'',
     rpc_auth_key = None, rpc_auth_header = ''Authorization'', rpc_auth_scheme = ''Bearer'',
     metrics_enabled = False, metrics_bind = ''127.0.0.1'', metrics_port = 9090, sink = sink_config\<rparr>"

definition build_ws_auth_defaults_to_bearer_authorization :: bool where
  "build_ws_auth_defaults_to_bearer_authorization =
     expect (build_ws_auth (Some ''abc'') ''Authorization'' ''Bearer'') (\<lambda>auth. auth = Some (Auth_Bearer ''abc''))"

definition build_ws_auth_supports_raw_scheme_when_empty :: bool where
  "build_ws_auth_supports_raw_scheme_when_empty =
     expect (build_ws_auth (Some ''abc'') ''Authorization'' []) (\<lambda>auth. auth = Some (Auth_Raw ''abc''))"

definition build_ws_auth_rejects_non_authorization_header :: bool where
  "build_ws_auth_rejects_non_authorization_header =
     expect_err (build_ws_auth (Some ''abc'') ''x-api-key'' ''Bearer'')
       (\<lambda>e. e = ''frontfill websocket auth supports only the Authorization header'')"

definition build_ws_auth_supports_custom_scheme_value :: bool where
  "build_ws_auth_supports_custom_scheme_value =
     expect (build_ws_auth (Some ''abc'') ''Authorization'' ''Token'') (\<lambda>auth. auth = Some (Auth_Raw ''Token abc''))"

definition build_ws_auth_returns_none_for_empty_key :: bool where
  "build_ws_auth_returns_none_for_empty_key =
     expect (build_ws_auth (Some []) ''Authorization'' ''Bearer'') (\<lambda>auth. auth = None)"

definition build_ws_auth_returns_none_when_key_is_missing :: bool where
  "build_ws_auth_returns_none_when_key_is_missing =
     expect (build_ws_auth None ''Authorization'' ''Bearer'') (\<lambda>auth. auth = None)"

definition build_ws_connect_sets_bearer_auth_when_provided :: bool where
  "build_ws_connect_sets_bearer_auth_when_provided =
     expect (build_ws_connect ''wss://example.invalid'' (Some ''abc'') ''Authorization'' ''Bearer'')
       (\<lambda>ws. ws_url ws = ''wss://example.invalid'' \<and> ws_auth ws = Some (Auth_Bearer ''abc''))"

definition build_ws_connect_keeps_auth_empty_without_key :: bool where
  "build_ws_connect_keeps_auth_empty_without_key =
     expect (build_ws_connect ''wss://example.invalid'' None ''Authorization'' ''Bearer'')
       (\<lambda>ws. ws_auth ws = None)"

definition build_storage_initializes_parquet_sink :: "bool \<Rightarrow> (memory, 'p, 'rec) kafka_api \<Rightarrow> bool" where
  "build_storage_initializes_parquet_sink kafka_feature K =
     expect (build_storage kafka_feature K (SinkParquet ''tmp'') :: (nat, 'p) dyn_sink rs)
       (\<lambda>sink. expect (fst (sink_close memory_api (sink, memory_start))) (\<lambda>_. True))"

definition kafka_feature_missing :: anyhow where
  "kafka_feature_missing = ''kafka sink requires the '' @ [CHR 0x27] @ ''kafka'' @ [CHR 0x27] @ '' feature flag''"

definition build_storage_kafka_errors_without_feature :: "('w, 'p, 'rec) kafka_api \<Rightarrow> bool" where
  "build_storage_kafka_errors_without_feature K =
     expect_err (build_storage False K (SinkKafka (Some ''localhost:9092'') ''polymarket'') :: (nat, 'p) dyn_sink rs)
       (\<lambda>e. e = kafka_feature_missing)"

definition build_storage_kafka_requires_brokers :: "('w, 'p, 'rec) kafka_api \<Rightarrow> bool" where
  "build_storage_kafka_requires_brokers K =
     expect_err (build_storage True K (SinkKafka None ''polymarket'') :: (nat, 'p) dyn_sink rs)
       (\<lambda>e. e = ''kafka sink requires --kafka-brokers'')"

definition run_returns_error_when_flush_blocks_is_zero ::
  "('w, 'f, 'h, 'p, 'rec, 'r, 'addr, 'l) ff_env \<Rightarrow> 'w \<Rightarrow> bool" where
  "run_returns_error_when_flush_blocks_is_zero E w =
     expect_err (fst (run_start E (test_config (SinkParquet ''output'')\<lparr>flush_blocks := 0\<rparr>) w))
       (\<lambda>e. e = ''flush-blocks must be greater than 0'')"

text \<open>The key is only looked at in the first turn of the loop, whether or not the endpoint can be reached.\<close>

definition run_returns_error_for_invalid_auth_header_when_key_is_set ::
  "('w, 'f, 'h, 'p, 'rec, 'r, 'addr, 'l) ff_env \<Rightarrow> 'w \<Rightarrow> bool" where
  "run_returns_error_for_invalid_auth_header_when_key_is_set E w =
     (let cfg = test_config (SinkParquet ''tmp'')\<lparr>rpc_auth_key := Some ''abc'', rpc_auth_header := ''x-api-key''\<rparr>
      in expect (fst (run_start E cfg w)) (\<lambda>st. list_all (\<lambda>up. fst (connect_step cfg up st)
           = Exited (Err ''frontfill websocket auth supports only the Authorization header'')) [True, False]))"

definition run_returns_error_for_kafka_sink_without_feature ::
  "('w, 'f, 'h, 'p, 'rec, 'r, 'addr, 'l) ff_env \<Rightarrow> 'w \<Rightarrow> bool" where
  "run_returns_error_for_kafka_sink_without_feature E w =
     expect_err (fst (run_start (E\<lparr>env_kafka_feature := False\<rparr>)
         (test_config (SinkKafka (Some ''localhost:9092'') ''polymarket'')) w))
       (\<lambda>e. e = kafka_feature_missing)"

section \<open>The tests of \<open>metrics.rs\<close>\<close>

text \<open>The readings of the clock are those of the four calls.\<close>

definition logs_per_minute_updates_for_total_and_event_types ::
  "('w, 'r, 'addr, 'l) metrics_env \<Rightarrow> hash_order \<Rightarrow> clock \<Rightarrow> clock \<Rightarrow> clock \<Rightarrow> clock \<Rightarrow> bool" where
  "logs_per_minute_updates_for_total_and_event_types E iter c1 c2 c3 c4 =
     expect (register E (registry_new E)) (\<lambda>(m, _).
       let m = observe_log iter c1 1 m;
           m = observe_log iter c2 2 m;
           m = observe_decoded_type iter c3 ''OrderFilled'' m;
           m = observe_decoded_type iter c4 ''OrderFilled'' m
       in logs_per_minute m = 2 \<and> logs_per_minute_by_type m ''OrderFilled'' = Some 2)"

definition start_metrics_runtime_rejects_invalid_bind ::
  "('w, 'r, 'addr, 'l) metrics_env \<Rightarrow> 'w \<Rightarrow> bool" where
  "start_metrics_runtime_rejects_invalid_bind E w =
     expect_err (fst (start_metrics_runtime E ''not-a-host'' 9090 w))
       (\<lambda>e. contains e ''invalid socket address'')"

definition health_is_false_when_disconnected :: "int \<Rightarrow> int \<Rightarrow> bool" where
  "health_is_false_when_disconnected set_at asked_at \<longleftrightarrow>
     \<not> is_healthy asked_at \<lparr>health_ws_connected = 0,
         health_last_log = f64_of_u64 (current_unix_timestamp_seconds set_at), max_staleness_seconds = 120\<rparr>"

definition health_is_true_when_connected_and_recent :: "int \<Rightarrow> int \<Rightarrow> bool" where
  "health_is_true_when_connected_and_recent set_at asked_at \<longleftrightarrow>
     is_healthy asked_at \<lparr>health_ws_connected = 1,
       health_last_log = f64_of_u64 (current_unix_timestamp_seconds set_at), max_staleness_seconds = 120\<rparr>"

section \<open>The tests of \<open>storage.rs\<close>\<close>

definition batch_rows :: "RecordBatch \<Rightarrow> nat" where
  "batch_rows b = (case batch_columns b of [] \<Rightarrow> 0 | column # _ \<Rightarrow> array_len column)"

definition write_order_cancelled ::
  "u64 \<Rightarrow> string \<Rightarrow> u64 \<Rightarrow> (string \<times> string) list \<Rightarrow> (nat ParquetStorage \<times> memory, unit) io" where
  "write_order_cancelled = write_event memory_api ''OrderCancelled''"

text \<open>How the batches of a file are divided into row groups is up to the \<open>parquet\<close> crate: an argument.\<close>

definition write_event_creates_parquet_file_and_single_row_group :: "(RecordBatch list \<Rightarrow> nat) \<Rightarrow> bool" where
  "write_event_creates_parquet_file_and_single_row_group num_row_groups =
     (case io_bind (io_each (\<lambda>i. write_order_cancelled (1000 + i) ''0xabc'' i [(''order_hash'', ''0xabc'')])
             [0, 1, 2, 3, 4, 5, 6, 7, 8, 9]) (\<lambda>_. close_writers memory_api)
           (ParquetStorage_new ''tmp'', memory_start) of
       (r, (_, w)) \<Rightarrow> expect r (\<lambda>_. length (mem_done w) = 1
         \<and> sum_list (map batch_rows (snd (mem_done w ! 0))) = 10
         \<and> num_row_groups (snd (mem_done w ! 0)) = 1))"

definition rotate_writers_starts_new_file_set :: bool where
  "rotate_writers_starts_new_file_set =
     (case io_bind (write_order_cancelled 1 ''0x1'' 1 [(''order_hash'', ''0x1'')]) (\<lambda>_.
           io_bind (rotate_writers memory_api) (\<lambda>_.
             io_bind (write_order_cancelled 2 ''0x2'' 2 [(''order_hash'', ''0x2'')]) (\<lambda>_.
               close_writers memory_api))) (ParquetStorage_new ''tmp'', memory_start) of
       (r, (_, w)) \<Rightarrow> expect r (\<lambda>_. length (remdups (map fst (mem_done w))) = 2))"

definition write_event_rejects_schema_mismatch_for_same_event_type :: bool where
  "write_event_rejects_schema_mismatch_for_same_event_type =
     (case write_order_cancelled 1 ''0x1'' 1 [(''order_hash'', ''0x1'')] (ParquetStorage_new ''tmp'', memory_start) of
       (r, s) \<Rightarrow> expect r (\<lambda>_. expect_err
          (fst (write_order_cancelled 2 ''0x2'' 2 [(''different_column'', ''x'')] s))
          (\<lambda>e. e = ''schema mismatch for event type '' @ [CHR 0x27] @ ''OrderCancelled'' @ [CHR 0x27])))"

section \<open>The tests of \<open>main.rs\<close> and \<open>bin/backfill.rs\<close>\<close>

definition args_use_default_flush_blocks :: bool where
  "args_use_default_flush_blocks \<longleftrightarrow> arg_flush_blocks default_args = 1000"

definition args_use_default_auth_header_settings :: bool where
  "args_use_default_auth_header_settings \<longleftrightarrow>
     arg_rpc_auth_header default_args = ''Authorization'' \<and> arg_rpc_auth_scheme default_args = ''Bearer''"

definition args_use_default_metrics_settings :: bool where
  "args_use_default_metrics_settings \<longleftrightarrow> \<not> arg_metrics_enabled default_args
     \<and> arg_metrics_bind default_args = ''127.0.0.1'' \<and> arg_metrics_port default_args = 9090"

definition args_frontfill_start_block_defaults_to_none :: bool where
  "args_frontfill_start_block_defaults_to_none \<longleftrightarrow> arg_frontfill_start_block default_args = None"

definition backfill_args_use_default_auth_header_settings :: bool where
  "backfill_args_use_default_auth_header_settings \<longleftrightarrow>
     barg_rpc_http_auth_header (default_backfill_args 1 2) = ''Authorization''
     \<and> barg_rpc_http_auth_scheme (default_backfill_args 1 2) = ''Bearer''"

section \<open>The tests pass\<close>

text \<open>
  What the tests take from the libraries: the laws of the other theories; a topic that is no signature hash;
  the rules of the crate \<open>http\<close> for header names and values; a registry that takes the metrics, a host that is
  no socket address, and a clock of which the four calls are less than a minute apart.
\<close>

definition token_char :: "char \<Rightarrow> bool" where
  "token_char c = (let n = of_char c :: nat in
     (48 \<le> n \<and> n < 58) \<or> (65 \<le> n \<and> n < 91) \<or> (97 \<le> n \<and> n < 123) \<or> n = 45 \<or> n = 46 \<or> n = 95)"

definition value_char :: "char \<Rightarrow> bool" where
  "value_char c = (let n = of_char c :: nat in n = 9 \<or> (32 \<le> n \<and> n < 127))"

definition http_ok :: "header_name_parser \<Rightarrow> header_value_parser \<Rightarrow> bool" where
  "http_ok hn hv \<longleftrightarrow>
     (\<forall>s. s \<noteq> [] \<longrightarrow> length s < 2 ^ 16 \<longrightarrow> list_all token_char s \<longrightarrow> hn s = Ok (map to_ascii_lower s)) \<and>
     (\<forall>s. CHR '' '' \<in> set s \<longrightarrow> hn s = Err ''invalid HTTP header name'') \<and>
     (\<forall>s. list_all value_char s \<longrightarrow> hv s = Ok s) \<and>
     (\<forall>s. CHR 0x0A \<in> set s \<longrightarrow> hv s = Err ''failed to parse header value'')"

text \<open>The operating system refuses to make a directory below a file.\<close>

definition file_in_the_way :: "('w, 'f, 'h) parquet_api \<Rightarrow> 'w \<Rightarrow> bool" where
  "file_in_the_way P w \<longleftrightarrow> (\<forall>name. \<exists>w'. create_dir_all P (path_join ''tmp/not_a_directory'' name) w
     = (Err ''Not a directory (os error 20)'', w'))"

text \<open>With its default properties \<open>ArrowWriter\<close> begins another row group after \<open>1024 * 1024\<close> rows.\<close>

definition row_groups_ok :: "(RecordBatch list \<Rightarrow> nat) \<Rightarrow> bool" where
  "row_groups_ok num_row_groups \<longleftrightarrow> (\<forall>bs. 0 < sum_list (map batch_rows bs) \<longrightarrow>
     sum_list (map batch_rows bs) \<le> 1024 * 1024 \<longrightarrow> num_row_groups bs = 1)"

definition metrics_ok :: "('w, 'r, 'addr, 'l) metrics_env \<Rightarrow> bool" where
  "metrics_ok E \<longleftrightarrow> (\<exists>r. register E (registry_new E) = Ok (new_metrics, r))
     \<and> parse_socket_addr E ''not-a-host:9090'' = Err ''invalid socket address syntax''"

definition within_a_minute :: "clock list \<Rightarrow> bool" where
  "within_a_minute cs \<longleftrightarrow> (\<forall>c \<in> set cs. \<forall>c' \<in> set cs. prune_time c - minute \<le> entry_time c')"

lemma contains_self [simp]: "contains s s"
  by (cases s) simp_all

lemma contract_test_passes:
  "address_from_str_ok f \<Longrightarrow> contract_addresses_returns_expected_constants_in_order f"
  using contract_literals_value
  by (simp add: contract_addresses_returns_expected_constants_in_order_def contract_addresses_def address_from_str_ok_def)

lemma encoded_event_test:
  assumes "keccak_ok A" "encodes_ok A encode" "values_render A"
    and "ty = event_name (sol_event_kind ev)" "cols = column_names (sol_event_kind ev)"
  shows "assert_decode_event A (test_event_log (encode ev)) ty cols"
proof -
  have enc: "(topics (test_event_log (encode ev)), log_data (test_event_log (encode ev))) = encode ev"
    by (simp add: test_event_log_def)
  obtain d where d: "decode_log A (test_event_log (encode ev)) = Ok (Some d)"
    by (rule encoded_decodes [OF assms(1-3) enc])
  note cols = encoded_columns [OF d [unfolded decode_log_encoded [OF assms(1,2) enc]]]
  from d cols(1,2) show ?thesis by (simp add: assert_decode_event_def assms(4,5))
qed

definition decode_tests :: "alloy \<Rightarrow> encoder \<Rightarrow> sol_value \<Rightarrow> bool" where
  "decode_tests A encode v \<longleftrightarrow>
     topic0_returns_first_topic \<and> topic0_returns_none_for_empty_topics
     \<and> value_to_string_returns_raw_string_for_string_values A v
     \<and> value_to_string_propagates_serialization_errors A v
     \<and> decode_log_returns_none_for_missing_topic0 A \<and> decode_log_returns_none_for_unknown_topic A
     \<and> decode_log_decodes_condition_preparation A encode \<and> decode_log_decodes_position_split A encode
     \<and> decode_log_decodes_positions_merge A encode \<and> decode_log_decodes_payout_redemption A encode
     \<and> decode_log_decodes_order_filled A encode \<and> decode_log_decodes_orders_matched A encode
     \<and> decode_log_decodes_order_cancelled A encode \<and> decode_log_decodes_market_prepared A encode
     \<and> decode_log_decodes_question_prepared A encode \<and> decode_log_decodes_positions_converted A encode"

lemmas decode_event_tests_def =
  decode_log_decodes_condition_preparation_def decode_log_decodes_position_split_def
  decode_log_decodes_positions_merge_def decode_log_decodes_payout_redemption_def
  decode_log_decodes_order_filled_def decode_log_decodes_orders_matched_def
  decode_log_decodes_order_cancelled_def decode_log_decodes_market_prepared_def
  decode_log_decodes_question_prepared_def decode_log_decodes_positions_converted_def

lemma decode_tests_pass:
  assumes "keccak_ok A" "encodes_ok A encode" "values_render A" "\<forall>e. SIGNATURE_HASH A e \<noteq> 0xFF"
  shows "decode_tests A encode v"
  unfolding decode_tests_def decode_event_tests_def
proof (intro conjI)
  show "topic0_returns_first_topic" "topic0_returns_none_for_empty_topics"
    by (simp_all add: topic0_returns_first_topic_def topic0_returns_none_for_empty_topics_def test_log_def topic0_def)
  show "value_to_string_returns_raw_string_for_string_values A v"
    by (simp add: value_to_string_returns_raw_string_for_string_values_def value_to_string_def)
  show "value_to_string_propagates_serialization_errors A v"
    by (simp add: value_to_string_propagates_serialization_errors_def always_fail_serialize_def value_to_string_def)
  show "decode_log_returns_none_for_missing_topic0 A"
    by (simp add: decode_log_returns_none_for_missing_topic0_def decode_log_def topic0_def test_log_def)
  show "decode_log_returns_none_for_unknown_topic A"
    using assms(4)
    by (simp add: decode_log_returns_none_for_unknown_topic_def decode_log_def topic0_def test_log_def)
qed (rule encoded_event_test [OF assms(1-3)]; simp)+

definition backfill_tests ::
  "('w, 'f, 'h, 'u, 'n, 'v) bf_env \<Rightarrow> 'w \<Rightarrow> header_name_parser \<Rightarrow> header_value_parser \<Rightarrow> bool" where
  "backfill_tests E w hn hv \<longleftrightarrow>
     build_auth_headers_uses_default_bearer_authorization hn hv
     \<and> build_auth_headers_supports_custom_header_and_empty_scheme hn hv
     \<and> build_auth_headers_is_empty_without_key hn hv
     \<and> build_auth_headers_returns_error_for_invalid_header_name hn hv
     \<and> build_auth_headers_returns_error_for_invalid_header_value hn hv
     \<and> chunk_ranges_splits_evenly (bf_overflow_checks E)
     \<and> chunk_ranges_adds_remainder_chunk (bf_overflow_checks E)
     \<and> chunk_ranges_handles_single_block (bf_overflow_checks E)
     \<and> run_returns_error_when_start_block_exceeds_end_block E w
     \<and> run_returns_error_when_chunk_size_is_zero E w
     \<and> run_returns_error_when_parallelism_is_zero E w
     \<and> run_returns_error_when_rate_limit_is_zero E w
     \<and> write_parquet_file_creates_output_file
     \<and> write_parquet_file_errors_when_output_path_is_not_directory (bf_parquet E) w"

lemma auth_header_tests_pass:
  assumes "http_ok hn hv"
  shows "build_auth_headers_uses_default_bearer_authorization hn hv"
    and "build_auth_headers_supports_custom_header_and_empty_scheme hn hv"
    and "build_auth_headers_is_empty_without_key hn hv"
    and "build_auth_headers_returns_error_for_invalid_header_name hn hv"
    and "build_auth_headers_returns_error_for_invalid_header_value hn hv"
proof -
  have hn: "hn s = Ok (map to_ascii_lower s)" if "s \<noteq> []" "length s < 2 ^ 16" "list_all token_char s" for s
    using assms that by (simp add: http_ok_def)
  have hv: "hv s = Ok s" if "list_all value_char s" for s using assms that by (simp add: http_ok_def)
  have bad: "hn ''bad header'' = Err ''invalid HTTP header name''"
    "hv (''Bearer abc'' @ [CHR 0x0A] @ ''xyz'') = Err ''failed to parse header value''"
    using assms by (simp_all add: http_ok_def)
  have lower: "map to_ascii_lower ''Authorization'' = ''authorization''"
    "map to_ascii_lower ''x-api-key'' = ''x-api-key''" by code_simp+
  have names: "hn ''Authorization'' = Ok ''authorization''" "hn ''x-api-key'' = Ok ''x-api-key''"
    using hn [of "''Authorization''"] hn [of "''x-api-key''"] unfolding lower by (simp_all add: token_char_def)
  have vals: "hv ''Bearer abc'' = Ok ''Bearer abc''" "hv ''abc'' = Ok ''abc''"
    by (simp_all add: hv value_char_def)
  show "build_auth_headers_uses_default_bearer_authorization hn hv"
    by (simp add: build_auth_headers_uses_default_bearer_authorization_def build_auth_headers_def names vals)
  show "build_auth_headers_supports_custom_header_and_empty_scheme hn hv"
    by (simp add: build_auth_headers_supports_custom_header_and_empty_scheme_def build_auth_headers_def names vals)
  show "build_auth_headers_is_empty_without_key hn hv"
    by (simp add: build_auth_headers_is_empty_without_key_def build_auth_headers_def)
  show "build_auth_headers_returns_error_for_invalid_header_name hn hv"
    by (simp add: build_auth_headers_returns_error_for_invalid_header_name_def build_auth_headers_def bad)
  show "build_auth_headers_returns_error_for_invalid_header_value hn hv"
    using bad(2)
    by (simp add: build_auth_headers_returns_error_for_invalid_header_value_def build_auth_headers_def names)
qed

lemma chunk_range_tests_pass:
  "chunk_ranges_splits_evenly checks" "chunk_ranges_adds_remainder_chunk checks"
  "chunk_ranges_handles_single_block checks"
  by (simp_all add: chunk_ranges_splits_evenly_def chunk_ranges_adds_remainder_chunk_def
      chunk_ranges_handles_single_block_def chunk_ranges_def chunk_loop.simps chunk_end_of_def add_u64_def
      sub_u64_def min_def unsigned_of_nat)

lemma rejected_configs:
  "run_returns_error_when_start_block_exceeds_end_block E w" "run_returns_error_when_chunk_size_is_zero E w"
  "run_returns_error_when_parallelism_is_zero E w" "run_returns_error_when_rate_limit_is_zero E w"
  by (simp_all add: run_returns_error_when_start_block_exceeds_end_block_def
      run_returns_error_when_chunk_size_is_zero_def run_returns_error_when_parallelism_is_zero_def
      run_returns_error_when_rate_limit_is_zero_def rejects_def backfill_start_def set_up_def
      validate_config_def valid_config_def)

lemma create_file_test_passes: "write_parquet_file_creates_output_file"
  by (simp add: write_parquet_file_creates_output_file_def write_parquet_file_def io_bind_def memory_api_def
      memory_start_def table_arrays_def column_array_def table_schema_def Field_new_def batch_fits_def
      mem_writer_def upt_rec path_join_def chunk_file_name_def show_u64_def show_nat.simps text_bytes_def Let_def)

lemma not_directory_test_passes:
  assumes "file_in_the_way P w"
  shows "write_parquet_file_errors_when_output_path_is_not_directory P w"
proof -
  from assms obtain w' where "create_dir_all P (path_join ''tmp/not_a_directory'' ''OrderFilled'') w
      = (Err ''Not a directory (os error 20)'', w')" by (auto simp: file_in_the_way_def)
  then show ?thesis
    by (simp add: write_parquet_file_errors_when_output_path_is_not_directory_def write_parquet_file_def
        io_bind_def Let_def)
qed

lemma backfill_tests_pass: "http_ok hn hv \<Longrightarrow> file_in_the_way (bf_parquet E) w \<Longrightarrow> backfill_tests E w hn hv"
  by (simp add: backfill_tests_def auth_header_tests_pass chunk_range_tests_pass rejected_configs
      create_file_test_passes not_directory_test_passes)

definition frontfill_tests ::
  "('w, 'f, 'h, 'p, 'rec, 'r, 'addr, 'l) ff_env \<Rightarrow> 'w \<Rightarrow> (memory, 'p, 'rec) kafka_api \<Rightarrow> bool" where
  "frontfill_tests E w K \<longleftrightarrow>
     build_ws_auth_defaults_to_bearer_authorization \<and> build_ws_auth_supports_raw_scheme_when_empty
     \<and> build_ws_auth_rejects_non_authorization_header \<and> build_ws_auth_supports_custom_scheme_value
     \<and> build_ws_auth_returns_none_for_empty_key \<and> build_ws_auth_returns_none_when_key_is_missing
     \<and> build_ws_connect_sets_bearer_auth_when_provided \<and> build_ws_connect_keeps_auth_empty_without_key
     \<and> build_storage_initializes_parquet_sink (env_kafka_feature E) K
     \<and> build_storage_kafka_errors_without_feature K \<and> build_storage_kafka_requires_brokers K
     \<and> run_returns_error_when_flush_blocks_is_zero E w
     \<and> run_returns_error_for_invalid_auth_header_when_key_is_set E w
     \<and> run_returns_error_for_kafka_sink_without_feature E w"

lemma header_case:
  "eq_ignore_ascii_case ''Authorization'' ''authorization''" "eq_ignore_ascii_case ''Bearer'' ''bearer''"
  "\<not> eq_ignore_ascii_case ''Token'' ''bearer''" "\<not> eq_ignore_ascii_case ''x-api-key'' ''authorization''"
  by code_simp+

lemma ws_auth_tests_pass:
  "build_ws_auth_defaults_to_bearer_authorization" "build_ws_auth_supports_raw_scheme_when_empty"
  "build_ws_auth_rejects_non_authorization_header" "build_ws_auth_supports_custom_scheme_value"
  "build_ws_auth_returns_none_for_empty_key" "build_ws_auth_returns_none_when_key_is_missing"
  "build_ws_connect_sets_bearer_auth_when_provided" "build_ws_connect_keeps_auth_empty_without_key"
  by (simp_all add: header_case build_ws_auth_def build_ws_connect_def
      build_ws_auth_defaults_to_bearer_authorization_def build_ws_auth_supports_raw_scheme_when_empty_def
      build_ws_auth_rejects_non_authorization_header_def build_ws_auth_supports_custom_scheme_value_def
      build_ws_auth_returns_none_for_empty_key_def build_ws_auth_returns_none_when_key_is_missing_def
      build_ws_connect_sets_bearer_auth_when_provided_def build_ws_connect_keeps_auth_empty_without_key_def)

lemma build_storage_tests_pass:
  "build_storage_initializes_parquet_sink k K" "build_storage_kafka_errors_without_feature K"
  "build_storage_kafka_requires_brokers K"
  by (simp_all add: build_storage_initializes_parquet_sink_def build_storage_kafka_errors_without_feature_def
      build_storage_kafka_requires_brokers_def build_storage_def sink_close_def dispatch_def close_writers_def
      ParquetStorage_new_def hash_entries_def memory_api_def kafka_feature_missing_def)

lemma run_error_tests_pass:
  "run_returns_error_when_flush_blocks_is_zero E w" "run_returns_error_for_kafka_sink_without_feature E w"
  "run_returns_error_for_invalid_auth_header_when_key_is_set E w"
  by (simp_all add: run_returns_error_when_flush_blocks_is_zero_def
      run_returns_error_for_kafka_sink_without_feature_def
      run_returns_error_for_invalid_auth_header_when_key_is_set_def test_config_def run_start_def io_bind_def
      build_storage_def kafka_feature_missing_def connect_step_def build_ws_connect_def build_ws_auth_def
      header_case)

lemma frontfill_tests_pass: "frontfill_tests E w K"
  by (simp add: frontfill_tests_def ws_auth_tests_pass build_storage_tests_pass run_error_tests_pass)

definition metrics_tests ::
  "('w, 'r, 'addr, 'l) metrics_env \<Rightarrow> 'w \<Rightarrow> hash_order \<Rightarrow> clock list \<Rightarrow> int \<Rightarrow> bool" where
  "metrics_tests E w iter cs now \<longleftrightarrow>
     (case cs of [c1, c2, c3, c4] \<Rightarrow> logs_per_minute_updates_for_total_and_event_types E iter c1 c2 c3 c4 | _ \<Rightarrow> False)
     \<and> start_metrics_runtime_rejects_invalid_bind E w
     \<and> health_is_false_when_disconnected now now \<and> health_is_true_when_connected_and_recent now now"

lemma rate_test_passes:
  assumes "metrics_ok E" and "hash_iter_ok iter" and "within_a_minute [c1, c2, c3, c4]"
  shows "logs_per_minute_updates_for_total_and_event_types E iter c1 c2 c3 c4"
proof -
  from assms(1) obtain r where r: "register E (registry_new E) = Ok (new_metrics, r)"
    by (auto simp: metrics_ok_def)
  have "hash_entries iter [(k, v)] = [(k, v)]" for k and v :: "int list"
  proof -
    have "mset (hash_entries iter [(k, v)]) = mset [(k, v)]"
      by (rule hash_entries_permutation [OF assms(2)]) simp
    then show ?thesis by simp
  qed
  with assms(3) show ?thesis
    by (simp add: logs_per_minute_updates_for_total_and_event_types_def r observe_log_def observe_decoded_type_def
        prune_and_recalculate_rates_def prune_old_entries_def new_metrics_def within_a_minute_def Let_def
        f64_of_nat_def not_less [symmetric])
qed

lemma health_tests_pass:
  assumes "1000000000 \<le> now" and "now < 2 ^ 53 * 1000000000"
  shows "health_is_false_when_disconnected now now" "health_is_true_when_connected_and_recent now now"
proof -
  let ?s = "now div 1000000000"
  have s: "0 < ?s" "?s < 2 ^ 53" using assms by simp_all
  let ?w = "word_of_int ?s :: u64"
  have "uint ?w = ?s" using s by (simp add: unsigned_of_int take_bit_int_eq_self)
  then have u: "unat ?w < 2 ^ 53" "?w \<noteq> 0" using s by (auto simp: unat_eq_nat_uint)
  have last: "u64_of_f64 (f64_of_u64 (current_unix_timestamp_seconds now)) = ?w"
    using u64_of_f64_of_u64 [OF u(1)] assms(1) by (simp add: current_unix_timestamp_seconds_def)
  show "health_is_false_when_disconnected now now"
    by (simp add: health_is_false_when_disconnected_def is_healthy_def)
  show "health_is_true_when_connected_and_recent now now"
    using last u(2) assms(1)
    by (simp add: health_is_true_when_connected_and_recent_def is_healthy_def current_unix_timestamp_seconds_def
        saturating_sub_def)
qed

lemma invalid_bind_test_passes:
  assumes "metrics_ok E"
  shows "start_metrics_runtime_rejects_invalid_bind E w"
proof -
  from assms obtain r where r: "register E (registry_new E) = Ok (new_metrics, r)"
    and p: "parse_socket_addr E ''not-a-host:9090'' = Err ''invalid socket address syntax''"
    by (auto simp: metrics_ok_def)
  have "''not-a-host'' @ '':'' @ show_nat (unat (9090 :: u16)) = ''not-a-host:9090''"
    by (simp add: show_nat.simps)
  with r p show ?thesis
    by (simp add: start_metrics_runtime_rejects_invalid_bind_def start_metrics_runtime_def
        start_metrics_server_def io_bind_def)
qed

definition storage_tests :: "(RecordBatch list \<Rightarrow> nat) \<Rightarrow> bool" where
  "storage_tests num_row_groups \<longleftrightarrow> write_event_creates_parquet_file_and_single_row_group num_row_groups
     \<and> rotate_writers_starts_new_file_set \<and> write_event_rejects_schema_mismatch_for_same_event_type"

lemmas storage_eval = memory_eval close_writers_def hash_entries_def rotate_writers_def next_file_set_def
  write_order_cancelled_def schema_names_def expected_schema_names_def metadata_names_def

lemma ten_writes_test_passes:
  "row_groups_ok num_row_groups \<Longrightarrow> write_event_creates_parquet_file_and_single_row_group num_row_groups"
  by (simp add: write_event_creates_parquet_file_and_single_row_group_def storage_eval row_groups_ok_def
      batch_rows_def)

lemma rotate_test_passes: "rotate_writers_starts_new_file_set"
  by (simp add: rotate_writers_starts_new_file_set_def storage_eval event_dir_def path_join_def file_set_name_def
      show_u64_def show_int_def show_nat.simps saturating_add_def)

lemma mismatch_test_passes: "write_event_rejects_schema_mismatch_for_same_event_type"
  by (simp add: write_event_rejects_schema_mismatch_for_same_event_type_def storage_eval schema_mismatch_def)

definition args_tests :: bool where
  "args_tests \<longleftrightarrow> args_use_default_flush_blocks \<and> args_use_default_auth_header_settings
     \<and> args_use_default_metrics_settings \<and> args_frontfill_start_block_defaults_to_none
     \<and> backfill_args_use_default_auth_header_settings"

lemma args_tests_pass: "args_tests"
  by (simp add: args_tests_def args_use_default_flush_blocks_def args_use_default_auth_header_settings_def
      args_use_default_metrics_settings_def args_frontfill_start_block_defaults_to_none_def
      backfill_args_use_default_auth_header_settings_def default_args_def default_backfill_args_def)

section \<open>All tests\<close>

text \<open>For libraries that keep their documented laws, every modelled test of the eight source files passes. This
  checks the definitions on the inputs of the tests; what holds on all inputs is shown in the other theories.\<close>

lemma unit_tests_pass:
  assumes "address_from_str_ok f" and "keccak_ok A" "encodes_ok A encode" "values_render A"
    and "\<forall>e. SIGNATURE_HASH A e \<noteq> 0xFF" and "http_ok hn hv" "file_in_the_way (bf_parquet B) w"
    and "metrics_ok M" "hash_iter_ok iter"
    and "within_a_minute [c1, c2, c3, c4]" and "1000000000 \<le> now" "now < 2 ^ 53 * 1000000000"
    and "row_groups_ok num_row_groups"
  shows "contract_addresses_returns_expected_constants_in_order f \<and> decode_tests A encode v
    \<and> backfill_tests B w hn hv \<and> frontfill_tests F w' K \<and> metrics_tests M w'' iter [c1, c2, c3, c4] now
    \<and> storage_tests num_row_groups \<and> args_tests"
  using assms
  by (simp add: contract_test_passes decode_tests_pass backfill_tests_pass frontfill_tests_pass metrics_tests_def
      rate_test_passes health_tests_pass invalid_bind_test_passes storage_tests_def ten_writes_test_passes
      rotate_test_passes mismatch_test_passes args_tests_pass)

definition test_header_name :: header_name_parser where
  "test_header_name s = (if CHR '' '' \<in> set s then Err ''invalid HTTP header name'' else Ok (map to_ascii_lower s))"

definition test_header_value :: header_value_parser where
  "test_header_value s = (if CHR 0x0A \<in> set s then Err ''failed to parse header value'' else Ok s)"

definition test_metrics_env :: "(unit, metric_desc list, string, unit) metrics_env" where
  "test_metrics_env = open_env\<lparr>parse_socket_addr := (\<lambda>s. Err ''invalid socket address syntax'')\<rparr>"

definition test_clock :: "int \<Rightarrow> clock" where
  "test_clock t = \<lparr>system_time = t, entry_time = t, prune_time = t\<rparr>"

lemma http_ok_test: "http_ok test_header_name test_header_value"
proof -
  have "\<not> token_char (CHR '' '')" "\<not> value_char (CHR 0x0A)" by (simp_all add: token_char_def value_char_def)
  then show ?thesis by (auto simp: http_ok_def test_header_name_def test_header_value_def list_all_iff)
qed

definition not_a_directory :: "(memory, string, nat) parquet_api" where
  "not_a_directory = memory_api\<lparr>create_dir_all := (\<lambda>p w. (Err ''Not a directory (os error 20)'', w))\<rparr>"

lemma unit_tests_pass_sample:
  "decode_tests full_alloy sample_encoding (SU256 7)
    \<and> backfill_tests (sample_bf_env\<lparr>bf_parquet := not_a_directory\<rparr>) memory_start test_header_name test_header_value
    \<and> frontfill_tests sample_env memory_start no_kafka
    \<and> metrics_tests test_metrics_env () (\<lambda>ks. ks) (map test_clock [1, 2, 3, 4]) 1700000000000000000
    \<and> storage_tests (\<lambda>bs. if bs = [] then 0 else 1)"
proof -
  have f: "address_from_str_ok (env_address_from_str sample_env)"
    by (simp add: address_from_str_ok_def sample_env_def)
  have h: "\<forall>e. SIGNATURE_HASH full_alloy e \<noteq> 0xFF"
  proof
    show "SIGNATURE_HASH full_alloy e \<noteq> 0xFF" for e
      by (cases e) (simp_all add: SIGNATURE_HASH_def full_alloy_def sample_alloy_def sample_hash_def
          event_signature_def)
  qed
  have m: "metrics_ok test_metrics_env"
    by (simp add: metrics_ok_def test_metrics_env_def open_env_def register_def metric_descs_def desc_def)
  have c: "within_a_minute [test_clock 1, test_clock 2, test_clock 3, test_clock 4]"
    by (simp add: within_a_minute_def test_clock_def minute_def)
  have d: "file_in_the_way (bf_parquet (sample_bf_env\<lparr>bf_parquet := not_a_directory\<rparr>)) memory_start"
    by (simp add: file_in_the_way_def not_a_directory_def)
  have g: "row_groups_ok (\<lambda>bs. if bs = [] then 0 else 1)" by (simp add: row_groups_ok_def)
  from unit_tests_pass [where now = 1700000000000000000 and iter = "\<lambda>ks. ks" and v = "SU256 7" and F = sample_env
      and w' = memory_start and K = no_kafka and w'' = "()",
      OF f keccak_ok_full encodes_ok_full values_render_full h http_ok_test d m _ c _ _ g]
  show ?thesis by (simp add: hash_iter_ok_def)
qed

end
