(* ===== verification/Spec2Isabelle.thy ===== *)
theory Spec2Isabelle
  imports Frontfill_Metrics Cli Unit_Tests
begin

text \<open>
  Verification of the Polymarket indexer, the Rust crate \<open>polymarket-indexer\<close> (sources under \<open>src/src/\<close>).

  \<^bold>\<open>The program.\<close> Two programs read the logs of three Polygon contracts, decode ten kinds of events and
  store one row per event. The frontfill indexer (\<open>main.rs\<close>, \<open>frontfill.rs\<close>) follows a WebSocket
  subscription and writes each event into a sink, a set of Parquet files or Kafka topics (\<open>storage.rs\<close>),
  rotating the files every \<open>flush_blocks\<close> blocks and reconnecting with exponential back-off; it exports
  metrics (\<open>metrics.rs\<close>). The backfill (\<open>bin/backfill.rs\<close>, \<open>backfill.rs\<close>) cuts a block interval into chunks,
  fetches the logs of several chunks at a time below a rate limit, and writes one sorted Parquet file per
  chunk and event type. Both use \<open>contracts.rs\<close> and \<open>decode.rs\<close>.

  \<^bold>\<open>The theories.\<close> In the order of their imports:
  \<^item> \<open>Prelude\<close>: machine integers, \<open>rs\<close> (the results of fallible code: \<open>Ok\<close>, \<open>Err\<close> with a message, \<open>Panic\<close>),
    \<open>io\<close> (operations on a state with the \<open>?\<close> operator), saturating arithmetic, decimal printing, paths, hash
    maps with an arbitrary iteration order.
  \<^item> \<open>Contracts\<close> (\<open>contracts.rs\<close>): event declarations, their structs and signatures, addresses.
  \<^item> \<open>Decode\<close> (\<open>decode.rs\<close>): \<open>topic0\<close>, \<open>value_to_string\<close>, \<open>decode_log\<close> and its ten branches; locale
    \<open>event_decoder\<close> (an event type determines its columns), interpreted by \<open>decode_log\<close>. \<open>Event_Encoding\<close>: the
    encoder that \<open>sol!\<close> generates, as a parameter, and that decoding inverts it.
  \<^item> \<open>Event_Sink\<close> (trait \<open>EventSink\<close> of \<open>storage.rs\<close>): the sink contract as the locales \<open>event_sink\<close>,
    \<open>caching_sink\<close> and, with a decoder, \<open>ingest\<close>.
  \<^item> \<open>Parquet_Api\<close>: what is used of the file system, the clock, \<open>arrow\<close> and \<open>parquet\<close>, as parameters with their
    documented laws (\<open>writers_ok\<close>, \<open>batches_ok\<close>, \<open>string_arrays_ok\<close>, \<open>no_panics\<close>, \<open>calls_succeed\<close>), and an
    in-memory instance.
  \<^item> \<open>Parquet_Storage\<close>, \<open>Kafka_Storage\<close> (\<open>storage.rs\<close>): the two sinks, every operation; \<open>Dyn_Sink\<close>: the boxed
    sink of \<open>frontfill.rs\<close>, \<open>build_storage\<close> and the dispatch. Each interprets the sink contract.
  \<^item> \<open>Metrics\<close> (\<open>metrics.rs\<close>): metrics, rolling rates, health, HTTP handlers, start and shutdown.
  \<^item> \<open>Frontfill\<close> (\<open>frontfill.rs\<close>): configuration, authentication, and \<open>run\<close> as a state machine \<open>ff_step\<close> whose
    inputs are what the loop awaits: outcomes of connecting and subscribing, logs, the end of the stream,
    Ctrl-C, ticks of the rate updater; \<open>ff_run\<close> are its runs.
    \<open>Frontfill_Metrics\<close>: the counters of a run against a ledger of its logs, and the metrics at its exits.
  \<^item> \<open>Chunk_Ranges\<close>: the loop of \<open>chunk_ranges\<close> on \<open>u64\<close>, against chunks of natural numbers. \<open>Rate_Limiter\<close>: the
    semaphore and its refill task, an interpretation of the locale \<open>token_bucket\<close>. \<open>Backfill_Chunk\<close>:
    grouping, sorting and \<open>write_parquet_file\<close>. \<open>Backfill\<close>: validation, set-up, and \<open>run\<close> as a step relation
    \<open>bf_step\<close> over all interleavings of the chunk futures and the refill task, with its invariants.
    \<open>Backfill_Correct\<close>: the properties of its runs \<open>bf_run\<close> and results \<open>backfill\<close> (all \<open>backfill.rs\<close>).
  \<^item> \<open>Cli\<close> (\<open>main.rs\<close>, \<open>bin/backfill.rs\<close>): arguments, default values and configurations.
  \<^item> \<open>Unit_Tests\<close>: the tests in the \<open>tests\<close> modules of the sources as executable predicates, which the model
    passes; the libraries are arguments, a temporary directory is the in-memory instance of \<open>Parquet_Api\<close>. They
    validate the definitions on single inputs and are no property of their own.
  \<^item> This theory: the properties that span components, and the two programs against each other.

  \<^bold>\<open>State and effects.\<close> A struct is a record and a method that mutates it a function of the record and the
  outside world; the state is there on every outcome, so an early return keeps what was done before it. The
  outside world is an arbitrary type, seen through \<open>disk_view\<close>: batches of open writers, batches of completed
  files, and the paths that hold data, as \<open>File::create\<close> truncates. Writers of a dropped storage are never
  completed.

  \<^bold>\<open>What is shown.\<close> For each component: its invariant and that every operation keeps it (\<open>storage_wf\<close>,
  \<open>file_set_fresh\<close>, \<open>groups_ok\<close>, \<open>limiter_inv\<close>, \<open>book_inv\<close>, \<open>runtime_inv\<close>), its functional behaviour with all errors,
  freedom from panics, and success when no library call fails. From these: no event received is lost by a
  run of either program that returns \<open>Ok\<close>, decoding inverts the encoding of events and loses nothing, every
  block is asked for once (read from the filters sent), the two programs store the same rows for the same logs,
  the limits hold under every interleaving, failures are reported, the backfill
  terminates and is never stuck, however often the refill task runs, its command line is obeyed, the frontfill
  rotates its sink exactly when due and keeps streaming while the input is good, and its exported
  counters are those of the logs received. The negative
  results are stated as well: exits on an error leave files without their end (and some of them
  the connection gauge at 1), a client of the metrics server can keep \<open>run\<close> from returning, a failing close
  abandons the other writers, and the sums of \<open>chunk_ranges\<close> overflow for huge chunk sizes.

  \<^bold>\<open>Bounds.\<close> Integers have the width of the code: block numbers and counts \<open>u64\<close>, \<open>usize\<close> 64 bits. The loss-freedom
  of the frontfill assumes fewer than \<open>2 ^ 64\<close> logs, since the number of the file set saturates there; the
  properties of the backfill assume that the end block plus the chunk size is a \<open>u64\<close> (\<open>sums_fit\<close>), and
  \<open>chunk_ranges_boundaries\<close> says what happens beyond. The columns of a backfill file panic from \<open>2 ^ 31\<close> bytes of text on
  (\<open>columns_fit\<close>); the one-row arrays of the frontfill never get there, and their constructor is total. The
  frontfill is assumed to start in a directory without files of earlier file sets (\<open>file_set_fresh\<close>): a
  restart into a used directory, which relies on the time in the file names, is not covered. No fuel is used: loops are structural
  recursions but for \<open>chunk_loop\<close>, a partial function whose value \<open>None\<close> is a loop that does not return.

  \<^bold>\<open>Parameters.\<close> Keccak-256, ABI decoding, \<open>serde_json\<close>, address and URL parsing, HTTP headers, \<open>apache_avro\<close>,
  \<open>rdkafka\<close>, \<open>prometheus\<close>, sockets and clocks are arguments of the definitions, and so is whether the open
  connections of the metrics server drain when it is told to stop (\<open>server_drains\<close>); each law assumed of them is a
  named definition that a concrete instance satisfies.

  \<^bold>\<open>Not modelled.\<close> Tracing output; the WebSocket and HTTP transports (their answers are inputs of the
  machines); \<open>clap\<close> and \<open>dotenvy\<close>; timers, so that a refill, a tick of the updater or the end of a sleep is an
  event; the buckets of the latency histogram, of which only the number of observations is kept; the
  representation of gauges, which are rational numbers rounded as \<open>f64\<close> is; the \<open>tokio\<close> scheduler beyond arbitrary interleaving; the
  unit tests of \<open>clap\<close>'s parser, of \<open>Url\<close>, of JSON and of the Prometheus text format, and the integration tests;
  \<open>lib.rs\<close>, which has module declarations only.
\<close>

section \<open>Continuing the sample run\<close>

lemma sample_next_log:
  assumes run: "ff_run sample_env sample_config memory_start inputs (Streaming, st)"
    and n: "length (logs_of inputs) < 2 ^ 64 - 1"
    and lg: "decode_log sample_alloy lg = Ok d" "block_number lg = Some b" "transaction_hash lg = Some tx"
      "log_index lg = Some i"
  obtains st' where "ff_run sample_env sample_config memory_start
    (inputs @ [Next_log lg sample_clock sample_clock]) (Streaming, st')"
proof -
  have inv: "parquet_inv memory_view (mset (rows_of sample_alloy inputs)) (length (logs_of inputs)) st"
    using sample_inv [OF run] n by (simp add: active_def)
  have "\<exists>st'. handle_log sample_env sample_config lg sample_clock sample_clock st = Go st'"
    by (rule handle_log_streams [OF sample_laws inv n]) (simp_all add: lg)
  then obtain st' where "handle_log sample_env sample_config lg sample_clock sample_clock st = Go st'" ..
  with run_step [OF run step_log [of _ _ lg sample_clock sample_clock]] that show thesis by simp
qed

lemma sample_ctrl_c:
  assumes run: "ff_run sample_env sample_config memory_start inputs (Streaming, st)"
    and n: "length (logs_of inputs) < 2 ^ 64 - 1"
  obtains st' where "ff_run sample_env sample_config memory_start (inputs @ [Ctrl_c (Ok ())]) (Exited (Ok ()), st')"
proof -
  have inv: "parquet_inv memory_view (mset (rows_of sample_alloy inputs)) (length (logs_of inputs)) st"
    using sample_inv [OF run] n by (simp add: active_def)
  have "handles_ok True st"
    using ff_run_runtime_inv [OF run] by (simp add: runtime_inv_def sample_env_def open_env_def)
  from handle_ctrl_c_exits [OF sample_laws inv this] obtain st' where
    "handle_ctrl_c sample_env (Ok ()) st = Exit (Ok ()) st'" by auto
  with run_step [OF run step_ctrl_c [of _ _ "Ok ()"]] that show thesis by simp
qed

section \<open>Properties of the frontfill runtime as a whole\<close>

lemma frontfill_finished:
  assumes "ff_run E cfg w inputs (Exited (Ok ()), st)" and "sink cfg = SinkParquet dir"
    and "run_start E cfg w = (Ok st0, w0)" and "parquet_laws E V"
    and "file_set_fresh V (ParquetStorage_new dir, w0)" and "length (logs_of inputs) < 2 ^ 64"
  shows "finished V (world st) = finished V w0 + mset (rows_of (env_alloy E) inputs)"
proof -
  from assms(1) obtain before r st1 where inputs: "inputs = before @ [Ctrl_c r]"
    and run: "ff_run E cfg w before (Streaming, st1)"
    and exit: "handle_ctrl_c E r st1 = Exit (Ok ()) st" by (rule ff_run_exit_Ok)
  have "parquet_inv V (finished V w0 + mset (rows_of (env_alloy E) before)) (length (logs_of before)) st1"
    using ff_run_parquet_inv [OF run _ assms(2-5)] assms(6) by (simp add: active_def inputs)
  from handle_ctrl_c_finished [OF assms(4) this exit] show ?thesis by (simp add: inputs)
qed

text \<open>C1. End to end, the indexer loses no event: when \<open>run\<close> with the Parquet sink returns \<open>Ok\<close>, which
  it does only on Ctrl-C, the completed files hold exactly one row for each log received that decodes
  to an event, across reconnections and rotations, and nothing else beside what was there at the
  start. The output directory is assumed to hold no files of an earlier frontfill run.\<close>

theorem frontfill_loses_nothing:
  assumes "ff_run E cfg w inputs (Exited (Ok ()), st)" and "sink cfg = SinkParquet dir"
    and "run_start E cfg w = (Ok st0, w0)" and "parquet_laws E V"
    and "file_set_fresh V (ParquetStorage_new dir, w0)" and "length (logs_of inputs) < 2 ^ 64"
  shows "finished V (world st) = finished V w0 + mset (rows_of (env_alloy E) inputs)"
  by (rule frontfill_finished [OF assms])

theorem frontfill_loses_nothing_witness:
  "\<exists>st. ff_run sample_env sample_config memory_start (logged_inputs @ [Ctrl_c (Ok ())]) (Exited (Ok ()), st)
     \<and> finished memory_view (world st) = {#row_batch ''OrderCancelled'' 9 ''0x9'' 0 [(''order_hash'', ''5'')]#}"
proof -
  obtain st1 where run: "ff_run sample_env sample_config memory_start logged_inputs (Streaming, st1)"
    by (rule sample_logged)
  have logs: "logs_of logged_inputs = [cancelled_log]"
    by (simp add: logged_inputs_def connected_inputs_def logs_of_def)
  obtain st where exit: "ff_run sample_env sample_config memory_start (logged_inputs @ [Ctrl_c (Ok ())]) (Exited (Ok ()), st)"
    by (rule sample_ctrl_c [OF run]) (simp_all add: logs)
  obtain st0 where s: "run_start sample_env sample_config memory_start = (Ok st0, memory_start)"
    by (rule sample_start)
  have rows: "rows_of sample_alloy (logged_inputs @ [Ctrl_c (Ok ())])
      = [row_batch ''OrderCancelled'' 9 ''0x9'' 0 [(''order_hash'', ''5'')]]"
    by (simp add: rows_of_def logs cancelled_log_rows)
  have start: "finished memory_view memory_start = {#}"
    by (simp add: memory_view_def memory_start_def)
  from frontfill_loses_nothing [OF exit _ s sample_laws(1) sample_fresh]
  have "finished memory_view (world st) = {#row_batch ''OrderCancelled'' 9 ''0x9'' 0 [(''order_hash'', ''5'')]#}"
    by (simp only: sample_env_fields rows start) (simp add: logs)
  with exit show ?thesis by blast
qed

text \<open>C8. Decoding, schema caching and rotation never stop the stream: in every reachable streaming state
  with the Parquet sink, started without files of an earlier run, when no file system or writer call fails, a log with its metadata that decodes,
  to an event or to none, is handled and streaming goes on, its event never refused for its columns; and
  Ctrl-C is answered by the return of \<open>Ok\<close>, unless metrics are enabled and a client never closes its
  connection to the metrics server, for which \<open>run\<close> then waits after it has closed the sink.\<close>

theorem frontfill_keeps_streaming:
  assumes "ff_run E cfg w inputs (Streaming, st)" and "sink cfg = SinkParquet dir"
    and "run_start E cfg w = (Ok st0, w0)" and "parquet_laws E V" "calls_succeed (env_parquet E) V"
    and "file_set_fresh V (ParquetStorage_new dir, w0)" and "length (logs_of inputs) < 2 ^ 64 - 1"
    and "decode_log (env_alloy E) lg = Ok d"
    and "block_number lg = Some b" "transaction_hash lg = Some tx" "log_index lg = Some i"
  shows "(\<exists>st'. ff_step E cfg (Next_log lg ck ck') (Streaming, st) (Streaming, st'))
    \<and> (\<exists>st'. ff_step E cfg (Ctrl_c (Ok ())) (Streaming, st)
        (if metrics_enabled cfg \<and> \<not> server_drains (env_metrics E) then Hung else Exited (Ok ()), st'))"
proof -
  have inv: "parquet_inv V (finished V w0 + mset (rows_of (env_alloy E) inputs)) (length (logs_of inputs)) st"
    using ff_run_parquet_inv [OF assms(1) _ assms(2-4,6)] assms(7) by (simp add: active_def)
  from handle_log_streams [OF assms(4,5) inv assms(7-11)] obtain st1 where
    "handle_log E cfg lg ck ck' st = Go st1" by blast
  moreover have "handles_ok (server_drains (env_metrics E)) st"
    and up: "(metrics_runtime st \<noteq> None) = metrics_enabled cfg"
    using ff_run_runtime_inv [OF assms(1)] by (simp_all add: runtime_inv_def active_def)
  from handle_ctrl_c_exits [OF assms(4,5) inv this(1)] obtain st2 where
    "handle_ctrl_c E (Ok ()) st = (if metrics_runtime st = None \<or> server_drains (env_metrics E)
      then Exit (Ok ()) st2 else Hang st2)" by blast
  then have "phase_after (handle_ctrl_c E (Ok ()) st)
      = (if metrics_enabled cfg \<and> \<not> server_drains (env_metrics E) then Hung else Exited (Ok ()), st2)"
    by (cases "metrics_enabled cfg"; cases "server_drains (env_metrics E)") (use up in simp_all)
  ultimately show ?thesis
    using step_log [of E cfg lg ck ck' st] step_ctrl_c [of E cfg "Ok ()" st] by (metis phase_after.simps(1))
qed

theorem frontfill_keeps_streaming_witness:
  "\<exists>st st'. ff_run sample_env sample_config memory_start connected_inputs (Streaming, st)
     \<and> ff_step sample_env sample_config (Next_log cancelled_log sample_clock sample_clock)
         (Streaming, st) (Streaming, st')
     \<and> (\<exists>st''. ff_step sample_env sample_config (Ctrl_c (Ok ())) (Streaming, st) (Exited (Ok ()), st''))"
proof -
  obtain st where run: "ff_run sample_env sample_config memory_start connected_inputs (Streaming, st)"
    by (rule sample_streaming)
  obtain st0 where s: "run_start sample_env sample_config memory_start = (Ok st0, memory_start)"
    by (rule sample_start)
  from frontfill_keeps_streaming [OF run _ s sample_laws sample_fresh, where lg = cancelled_log] run
  show ?thesis
    by (simp add: cancelled_log_decodes connected_inputs_def logs_of_def)
      (simp add: cancelled_log_def sample_log_def sample_env_def open_env_def, blast)
qed

text \<open>The error with which a log ends \<open>run\<close> before anything is written for it.\<close>

definition log_error :: "alloy \<Rightarrow> Log \<Rightarrow> anyhow option" where
  "log_error A lg =
     (if block_number lg = None then Some ''frontfill received log missing block_number''
      else if transaction_hash lg = None then Some ''frontfill received log missing transaction_hash''
      else if log_index lg = None then Some ''frontfill received log missing log_index''
      else case decode_log A lg of Err e \<Rightarrow> Some e | _ \<Rightarrow> None)"

definition has_metadata :: "Log \<Rightarrow> bool" where
  "has_metadata lg \<longleftrightarrow> block_number lg \<noteq> None \<and> transaction_hash lg \<noteq> None \<and> log_index lg \<noteq> None"

definition rotation_due :: "('w, 'h, 'p) ff_state \<Rightarrow> Log \<Rightarrow> bool" where
  "rotation_due st lg \<longleftrightarrow> (\<exists>t b. next_rotation_block st = Some t \<and> block_number lg = Some b \<and> t \<le> b)"

lemma retire_phase:
  assumes "handles_ok drains s" and "(metrics_runtime s \<noteq> None) = enabled"
  shows "\<exists>st'. phase_after (retire_and_exit f r s) = (if enabled \<and> \<not> drains then Hung else Exited r, st')
    \<and> storage st' = storage s \<and> world st' = world s"
  by (rule retire_and_exit_ok [OF assms(1), of f r]) (use assms(2) in auto)

lemma rotate_not_due:
  assumes "\<not> rotation_due st lg" and "block_number lg = Some b" and "next_rotation_block s = next_rotation_block st"
  shows "\<exists>n. rotate_if_due E cfg b s = Go (s\<lparr>next_rotation_block := n\<rparr>)"
proof (cases "next_rotation_block st")
  case (Some t)
  with assms have "\<not> t \<le> b" by (auto simp: rotation_due_def)
  with Some assms(3) have "rotate_if_due E cfg b s = Go s" "s\<lparr>next_rotation_block := Some t\<rparr> = s"
    by (simp_all add: rotate_if_due_def)
  then show ?thesis by metis
qed (use assms(3) in \<open>auto simp: rotate_if_due_def\<close>)

lemma error_log_phase:
  assumes h: "handles_ok drains st" "(metrics_runtime st \<noteq> None) = enabled"
    and e: "log_error (env_alloy E) lg = Some e" and due: "has_metadata lg \<Longrightarrow> \<not> rotation_due st lg"
  shows "\<exists>st'. phase_after (handle_log E cfg lg ck ck' st)
      = (if enabled \<and> \<not> drains then Hung else Exited (Err e), st')
    \<and> storage st' = storage st \<and> world st' = world st"
proof (cases "has_metadata lg")
  case False
  then obtain field where "handle_log E cfg lg ck ck' st = missing_metadata field st"
    and "e = ''frontfill received log missing '' @ field"
    using e by (auto simp: has_metadata_def handle_log_def log_error_def split: option.split if_splits)
  with retire_phase [of drains "with_metrics (\<lambda>m. m\<lparr>missing_metadata_total := missing_metadata_total m + 1\<rparr>) st"
      enabled "set_ws_connected 0" "Err e"] h
  show ?thesis by (simp add: missing_metadata_def)
next
  case True
  then obtain b tx i where lg: "block_number lg = Some b" "transaction_hash lg = Some tx" "log_index lg = Some i"
    by (auto simp: has_metadata_def)
  with e have d: "decode_log (env_alloy E) lg = Err e" by (auto simp: log_error_def split: rs.splits)
  let ?s = "with_metrics (observe_log (env_order E) ck b) st"
  obtain n where rot: "rotate_if_due E cfg b ?s = Go (?s\<lparr>next_rotation_block := n\<rparr>)"
    using rotate_not_due [OF due [OF True] lg(1), of ?s E cfg] by auto
  let ?s1 = "with_metrics (\<lambda>m. m\<lparr>decode_errors_total := decode_errors_total m + 1\<rparr>) (?s\<lparr>next_rotation_block := n\<rparr>)"
  have "handle_log E cfg lg ck ck' st = retire_and_exit (set_ws_connected 0) (Err e) ?s1"
    using lg rot d by (simp add: handle_log_def decode_and_write_def)
  moreover have "handles_ok drains ?s1" "(metrics_runtime ?s1 \<noteq> None) = enabled"
    using h handles_ok_cong [of "?s\<lparr>next_rotation_block := n\<rparr>" ?s drains] by simp_all
  ultimately show ?thesis using retire_phase [of drains ?s1 enabled "set_ws_connected 0" "Err e"] by simp
qed

text \<open>C34. An exit on an error leaves the open files open. While logs are streaming, a log that lacks metadata, or
  that has it and does not decode when no rotation is due, ends \<open>run\<close> with the error of its first missing
  field or of the decoder, and the sink has not been called: the rows written since the last rotation stay in
  open writers, in no completed file. (When a rotation is due for a log that does not decode, the rotation comes
  first. With metrics and a server that does not drain, \<open>run\<close> waits for it before it returns.)\<close>

theorem error_exit_leaves_files_open:
  assumes "ff_run E cfg w inputs (Streaming, st)" and "log_error (env_alloy E) lg = Some e"
    and "has_metadata lg \<Longrightarrow> \<not> rotation_due st lg"
  shows "\<exists>st'. (\<forall>c. ff_step E cfg (Next_log lg ck ck') (Streaming, st) c
        \<longleftrightarrow> c = (if metrics_enabled cfg \<and> \<not> server_drains (env_metrics E) then Hung else Exited (Err e), st'))
    \<and> storage st' = storage st \<and> world st' = world st"
proof -
  have "handles_ok (server_drains (env_metrics E)) st" "(metrics_runtime st \<noteq> None) = metrics_enabled cfg"
    using ff_run_runtime_inv [OF assms(1)] by (simp_all add: runtime_inv_def active_def)
  from error_log_phase [OF this assms(2,3), of cfg ck ck'] show ?thesis
    by (auto simp: ff_step_streaming)
qed

definition broken_log :: Log where
  "broken_log = sample_log OrderCancelled [] 9 1"

lemma broken_log_error: "log_error sample_alloy broken_log = Some ''ABI decoding failed''"
  by (simp add: broken_log_def log_error_def decode_log_def topic0_def sample_log_def SIGNATURE_HASH_def
      sample_alloy_def sample_hash_def event_signature_def decode_OrderCancelled_def)

lemma sample_logged_target:
  obtains st where "ff_run sample_env sample_config memory_start logged_inputs (Streaming, st)"
    and "next_rotation_block st = Some 19"
proof -
  obtain st where run: "ff_run sample_env sample_config memory_start logged_inputs (Streaming, st)"
    by (rule sample_logged)
  have "logs_of logged_inputs = [cancelled_log]"
    by (simp add: logged_inputs_def connected_inputs_def logs_of_def)
  then have "next_rotation_block st = fst (rotation_ledger 10 [cancelled_log])"
    using ff_run_ledger [OF run] by (simp add: run_ledger_active active_def ledger_inv_def sample_config_def)
  also have "\<dots> = Some 19"
    by (simp add: rotation_ledger_def log_blocks_def map_filter_def cancelled_log_def sample_log_def
        saturating_add_def)
  finally show thesis using run that by blast
qed

theorem error_exit_leaves_files_open_witness:
  "\<exists>st st1 st2. ff_run sample_env sample_config memory_start logged_inputs (Streaming, st)
     \<and> ff_step sample_env sample_config (Next_log blockless_log sample_clock sample_clock) (Streaming, st)
         (Exited (Err ''frontfill received log missing block_number''), st1)
     \<and> ff_step sample_env sample_config (Next_log broken_log sample_clock sample_clock) (Streaming, st)
         (Exited (Err ''ABI decoding failed''), st2)
     \<and> (\<forall>s \<in> {st1, st2}. \<exists>pst. storage s = ParquetSink pst
          \<and> stored memory_view (pst, world s) = {#row_batch ''OrderCancelled'' 9 ''0x9'' 0 [(''order_hash'', ''5'')]#})"
proof -
  obtain st where run: "ff_run sample_env sample_config memory_start logged_inputs (Streaming, st)"
    and target: "next_rotation_block st = Some 19" by (rule sample_logged_target)
  have logs: "logs_of logged_inputs = [cancelled_log]"
    by (simp add: logged_inputs_def connected_inputs_def logs_of_def)
  have "parquet_inv memory_view (mset (rows_of sample_alloy logged_inputs)) (length (logs_of logged_inputs)) st"
    using sample_inv [OF run] by (simp add: active_def logs)
  then obtain pst where pst: "storage st = ParquetSink pst"
    "stored memory_view (pst, world st) = {#row_batch ''OrderCancelled'' 9 ''0x9'' 0 [(''order_hash'', ''5'')]#}"
    by (auto simp: parquet_inv_def rows_of_def logs cancelled_log_rows)
  have none: "block_number blockless_log = None" by (simp add: blockless_log_def)
  have env: "env_alloy sample_env = sample_alloy" "server_drains (env_metrics sample_env) = True"
    by (simp_all add: sample_env_def open_env_def)
  have e1: "log_error (env_alloy sample_env) blockless_log = Some ''frontfill received log missing block_number''"
    and e2: "log_error (env_alloy sample_env) broken_log = Some ''ABI decoding failed''"
    by (simp_all only: env broken_log_error) (simp add: log_error_def none)
  have due: "has_metadata blockless_log \<Longrightarrow> \<not> rotation_due st blockless_log" "\<not> rotation_due st broken_log"
    by (simp_all add: has_metadata_def none rotation_due_def target broken_log_def sample_log_def)
  note exits = error_exit_leaves_files_open [where ck = sample_clock and ck' = sample_clock, OF run]
  from exits [OF e1 due(1)] obtain st1 where
    "ff_step sample_env sample_config (Next_log blockless_log sample_clock sample_clock) (Streaming, st)
       (Exited (Err ''frontfill received log missing block_number''), st1)"
    "storage st1 = storage st" "world st1 = world st" by (auto simp: env)
  moreover from exits [OF e2 due(2)] obtain st2 where
    "ff_step sample_env sample_config (Next_log broken_log sample_clock sample_clock) (Streaming, st)
       (Exited (Err ''ABI decoding failed''), st2)"
    "storage st2 = storage st" "world st2 = world st" by (auto simp: env)
  ultimately show ?thesis using run pst by (intro exI [of _ st] exI [of _ st1] exI [of _ st2]) simp
qed

section \<open>The two programs together\<close>

lemma one_row_slices: "batch_slices (row_batch et b tx i cols) = [row_batch et b tx i cols]"
proof -
  have "array_at 0 a = a" if "a \<in> set (batch_columns (row_batch et b tx i cols))" for a
    using that by (auto simp: row_batch_def)
  then have "map (array_at 0) (batch_columns (row_batch et b tx i cols)) = batch_columns (row_batch et b tx i cols)"
    by (intro map_idI)
  then show ?thesis by (simp add: batch_slices_def) (simp add: row_batch_def)
qed

text \<open>C7. The two programs store the same rows: a frontfill run with the Parquet sink and a backfill that
  both return \<open>Ok\<close>, from empty output, and that received the same logs, in any order and any number of
  connections or chunks, leave the same rows in their completed files.\<close>

theorem programs_store_same_rows:
  assumes "ff_run E cfg w inputs (Exited (Ok ()), st)" and "sink cfg = SinkParquet dir"
    and "run_start E cfg w = (Ok st0, w0)" and "parquet_laws E V"
    and "file_set_fresh V (ParquetStorage_new dir, w0)" and "length (logs_of inputs) < 2 ^ 64"
    and "backfill F bcfg v trace (Ok ()) v'" and "file_laws F U" "sums_fit bcfg" "output_fresh U bcfg v"
    and "finished V w0 = {#}" "finished U v = {#}" and "bf_alloy F = env_alloy E"
    and "mset (received_logs trace) = mset (logs_of inputs)"
  shows "slices (finished V (world st)) = slices (finished U v')"
proof -
  let ?rows = "\<lambda>lgs. mset (concat (map (log_rows (env_alloy E)) lgs))"
  have one: "batch_slices r = [r]" if "r \<in> set (log_rows (env_alloy E) lg)" for r lg
    using that by (auto simp: log_rows_def one_row_slices split: rs.splits option.splits)
  have slices_one: "slices (mset rs) = mset rs" if "\<forall>r \<in> set rs. batch_slices r = [r]" for rs
    using that by (induction rs) simp_all
  have "slices (?rows lgs) = ?rows lgs" for lgs by (rule slices_one) (auto dest: one)
  moreover have "finished V (world st) = ?rows (logs_of inputs)"
    using frontfill_finished [OF assms(1-6)] assms(11) by (simp add: rows_of_def)
  moreover have "slices (finished U v') = ?rows (received_logs trace)"
    using backfill_finished [OF assms(7-10)] assms(12,13) by simp
  moreover have "?rows lgs = (\<Sum>lg\<in>#mset lgs. mset (log_rows (env_alloy E) lg))" for lgs
    by (induction lgs) simp_all
  ultimately show ?thesis using assms(14) by simp
qed

theorem programs_store_same_rows_witness:
  "\<exists>inputs st v'. ff_run sample_env sample_config memory_start inputs (Exited (Ok ()), st)
     \<and> logs_of inputs = rev sample_logs
     \<and> backfill sample_bf_env sample_bf_config memory_start sample_trace (Ok ()) v'
     \<and> slices (finished memory_view (world st)) = slices (finished memory_view v')"
proof -
  obtain a b where ab: "sample_logs = [b, a]" "a = sample_log OrderCancelled [5] 9 0"
    "b = sample_log OrderCancelled [7] 9 1" by (simp add: sample_logs_def)
  have fields: "block_number (sample_log e ts x i) = Some x" "log_index (sample_log e ts x i) = Some i"
    "transaction_hash (sample_log e ts x i) = Some (word_of_nat (unat x))" for e ts x i
    by (simp_all add: sample_log_def)
  let ?next = "\<lambda>lg. [Next_log lg sample_clock sample_clock]"
  have logs: "logs_of connected_inputs = []" "logs_of (connected_inputs @ ?next a) = [a]"
    "logs_of (connected_inputs @ ?next a @ ?next b) = [a, b]"
    "logs_of ((connected_inputs @ ?next a @ ?next b) @ [Ctrl_c (Ok ())]) = [a, b]"
    by (simp_all add: connected_inputs_def logs_of_def)
  obtain st1 where "ff_run sample_env sample_config memory_start connected_inputs (Streaming, st1)"
    by (rule sample_streaming)
  then obtain st2 where "ff_run sample_env sample_config memory_start (connected_inputs @ ?next a) (Streaming, st2)"
    by (rule sample_next_log [where lg = a]) (simp_all add: logs ab fields sample_log_decodes)
  then obtain st3 where
    "ff_run sample_env sample_config memory_start (connected_inputs @ ?next a @ ?next b) (Streaming, st3)"
    by (rule sample_next_log [where lg = b]) (simp_all add: logs ab(2,3) fields sample_log_decodes)
  then obtain st where exit: "ff_run sample_env sample_config memory_start
      ((connected_inputs @ ?next a @ ?next b) @ [Ctrl_c (Ok ())]) (Exited (Ok ()), st)"
    by (rule sample_ctrl_c) (simp only: logs, simp)
  obtain st0 where s: "run_start sample_env sample_config memory_start = (Ok st0, memory_start)"
    by (rule sample_start)
  obtain v' where bf: "backfill sample_bf_env sample_bf_config memory_start sample_trace (Ok ()) v'"
    by (rule sample_backfill)
  have start: "finished memory_view memory_start = {#}" by (simp add: memory_view_def memory_start_def)
  have received: "received_logs sample_trace = [b, a]"
    by (simp add: sample_trace_def fetching_trace_def received_logs_def answers_def ab(1))
  from programs_store_same_rows [OF exit _ s sample_laws(1) sample_fresh _ bf sample_bf_laws start start]
  have "slices (finished memory_view (world st)) = slices (finished memory_view v')"
    by (simp add: logs_of_def received connected_inputs_def add_mset_commute)
  moreover have "logs_of ((connected_inputs @ ?next a @ ?next b) @ [Ctrl_c (Ok ())]) = rev sample_logs"
    by (simp add: logs_of_def connected_inputs_def ab(1))
  ultimately show ?thesis using exit bf by blast
qed

end
